theory Spec2Isabelle
  imports
    Complex_Main
    "HOL-Library.Log_Nat"
    "HOL-Library.Char_ord"
    "HOL-Library.List_Lexorder"
begin

section \<open>JavaScript numbers on the money path\<close>

text \<open>
  \<^verbatim>\<open>TransferService.executeTransfer\<close> converts the balance and amount strings with
  \<^verbatim>\<open>parseFloat\<close>, subtracts and adds them as Numbers and serialises the results with
  \<^verbatim>\<open>toFixed(4)\<close>. A Number is an IEEE 754 binary64 value. A finite one is modelled by the
  rational it denotes; the two zeros are one value, since the service only compares,
  adds, subtracts and formats (and a zero result is never negative here).
\<close>

datatype jsnum = NaN | PosInf | NegInf | Fin rat

definition pow2 :: "int \<Rightarrow> rat" where
  "pow2 e = (if 0 \<le> e then 2 ^ nat e else 1 / 2 ^ nat (- e))"

definition pow10 :: "int \<Rightarrow> rat" where
  "pow10 e = (if 0 \<le> e then 10 ^ nat e else 1 / 10 ^ nat (- e))"

text \<open>\<open>ilog2 q\<close> is the binary exponent \<open>e\<close> of a positive rational: \<open>2^e \<le> q < 2^(e+1)\<close>.\<close>

definition ilog2 :: "rat \<Rightarrow> int" where
  "ilog2 q = (let (a, b) = quotient_of q; d = bitlen a - bitlen b
              in if pow2 d \<le> q then d else d - 1)"

definition round_half_even :: "rat \<Rightarrow> int" where
  "round_half_even q =
     (let f = \<lfloor>q\<rfloor>; r = q - of_int f
      in if r < 1 / 2 then f
         else if 1 / 2 < r then f + 1
         else if even f then f else f + 1)"

text \<open>
  Rounding of an exact value to binary64, nearest with ties to even: 53 significant bits,
  least exponent \<open>-1074\<close>, overflow to an infinity once the rounded magnitude reaches
  \<open>2^1024\<close> (its binary exponent is then 1024 or more).
\<close>

definition round64 :: "rat \<Rightarrow> jsnum" where
  "round64 q =
     (if q = 0 then Fin 0
      else let a = \<bar>q\<bar>;
               p = max (ilog2 a - 52) (- 1074);
               r = of_int (round_half_even (a / pow2 p)) * pow2 p
           in if 1024 \<le> ilog2 r then (if 0 < q then PosInf else NegInf)
              else Fin (if 0 < q then r else - r))"

fun js_add :: "jsnum \<Rightarrow> jsnum \<Rightarrow> jsnum" where
  "js_add (Fin x) (Fin y) = round64 (x + y)"
| "js_add NaN _ = NaN"
| "js_add _ NaN = NaN"
| "js_add PosInf NegInf = NaN"
| "js_add NegInf PosInf = NaN"
| "js_add PosInf _ = PosInf"
| "js_add NegInf _ = NegInf"
| "js_add _ PosInf = PosInf"
| "js_add _ NegInf = NegInf"

fun js_neg :: "jsnum \<Rightarrow> jsnum" where
  "js_neg (Fin x) = Fin (- x)"
| "js_neg PosInf = NegInf"
| "js_neg NegInf = PosInf"
| "js_neg NaN = NaN"

definition js_sub :: "jsnum \<Rightarrow> jsnum \<Rightarrow> jsnum" where
  "js_sub x y = js_add x (js_neg y)"

fun js_less :: "jsnum \<Rightarrow> jsnum \<Rightarrow> bool" where
  "js_less (Fin x) (Fin y) = (x < y)"
| "js_less NaN _ = False"
| "js_less _ NaN = False"
| "js_less PosInf _ = False"
| "js_less _ NegInf = False"
| "js_less _ PosInf = True"
| "js_less NegInf _ = True"

fun js_less_eq :: "jsnum \<Rightarrow> jsnum \<Rightarrow> bool" where
  "js_less_eq (Fin x) (Fin y) = (x \<le> y)"
| "js_less_eq NaN _ = False"
| "js_less_eq _ NaN = False"
| "js_less_eq _ PosInf = True"
| "js_less_eq NegInf _ = True"
| "js_less_eq PosInf _ = False"
| "js_less_eq _ NegInf = False"

definition isNaN :: "jsnum \<Rightarrow> bool" where
  "isNaN x = (x = NaN)"

subsection \<open>Decimal text\<close>

definition isDigit :: "char \<Rightarrow> bool" where
  "isDigit c = (CHR ''0'' \<le> c \<and> c \<le> CHR ''9'')"

definition digitVal :: "char \<Rightarrow> int" where
  "digitVal c = of_char c - of_char (CHR ''0'')"

definition digitsVal :: "string \<Rightarrow> int" where
  "digitsVal ds = foldl (\<lambda>n c. 10 * n + digitVal c) 0 ds"

text \<open>The white space and line terminators that \<^verbatim>\<open>parseFloat\<close> skips (the ASCII ones).\<close>

definition isStrWhiteSpace :: "char \<Rightarrow> bool" where
  "isStrWhiteSpace c = (c \<in> set [CHR 0x09, CHR 0x0A, CHR 0x0B, CHR 0x0C, CHR 0x0D, CHR 0x20])"

text \<open>
  The exponent part of a decimal literal: \<^verbatim>\<open>e\<close> or \<^verbatim>\<open>E\<close>, an optional sign and at least one
  digit; anything else is not part of the literal and contributes exponent 0.
\<close>

definition exponentPart :: "string \<Rightarrow> int" where
  "exponentPart s =
     (case s of
        [] \<Rightarrow> 0
      | c # r \<Rightarrow>
          if c = CHR ''e'' \<or> c = CHR ''E'' then
            (case r of
               [] \<Rightarrow> 0
             | d # r' \<Rightarrow>
                 if d = CHR ''-'' then
                   - digitsVal (takeWhile isDigit r')
                 else if d = CHR ''+'' then digitsVal (takeWhile isDigit r')
                 else digitsVal (takeWhile isDigit r))
          else 0)"

text \<open>
  The mathematical value of the longest prefix that is an unsigned decimal literal
  (\<^verbatim>\<open>DecimalDigits . DecimalDigits? ExponentPart?\<close>, \<^verbatim>\<open>. DecimalDigits ExponentPart?\<close> or
  \<^verbatim>\<open>DecimalDigits ExponentPart?\<close>), or \<open>None\<close> when there is no such prefix.
\<close>

definition unsignedDecimalValue :: "string \<Rightarrow> rat option" where
  "unsignedDecimalValue u =
     (let ip = takeWhile isDigit u;
          r1 = dropWhile isDigit u;
          fp = (case r1 of [] \<Rightarrow> [] | c # r \<Rightarrow> if c = CHR ''.'' then takeWhile isDigit r else []);
          r2 = (case r1 of [] \<Rightarrow> [] | c # r \<Rightarrow> if c = CHR ''.'' then dropWhile isDigit r else r1)
      in if ip = [] \<and> fp = [] then None
         else Some (of_int (digitsVal (ip @ fp)) * pow10 (exponentPart r2 - int (length fp))))"

definition isPrefixOf :: "string \<Rightarrow> string \<Rightarrow> bool" where
  "isPrefixOf p s = (take (length p) s = p)"

definition parseFloat :: "string \<Rightarrow> jsnum" where
  "parseFloat s =
     (let t = dropWhile isStrWhiteSpace s;
          neg = (case t of [] \<Rightarrow> False | c # _ \<Rightarrow> c = CHR ''-'');
          u = (case t of [] \<Rightarrow> [] | c # r \<Rightarrow> if c = CHR ''-'' \<or> c = CHR ''+'' then r else t)
      in if isPrefixOf ''Infinity'' u then (if neg then NegInf else PosInf)
         else (case unsignedDecimalValue u of
                 None \<Rightarrow> NaN
               | Some v \<Rightarrow> round64 (if neg then - v else v)))"

text \<open>
  \<^verbatim>\<open>x.toFixed(4)\<close>: for a finite \<open>\<bar>x\<bar> < 10^21\<close> the integer \<open>n\<close> with \<open>n / 10^4\<close> nearest to
  \<open>\<bar>x\<bar>\<close> (the larger one of two), written with four fractional digits and a minus sign
  when \<open>x < 0\<close>. From \<open>10^21\<close> on the result is the exponent notation of \<^verbatim>\<open>ToString\<close>, which
  is not modelled: \<open>None\<close>.
\<close>

function digitsOf :: "int \<Rightarrow> string" where
  "digitsOf n = (if n < 10 then [char_of (n + 48)] else digitsOf (n div 10) @ [char_of (n mod 10 + 48)])"
  by pat_completeness auto
termination
  by (relation "measure nat") auto

definition fixed4 :: "int \<Rightarrow> string" where
  "fixed4 n = digitsOf (n div 10000) @ ''.'' @
     [char_of (n div 1000 mod 10 + 48), char_of (n div 100 mod 10 + 48),
      char_of (n div 10 mod 10 + 48), char_of (n mod 10 + 48)]"

fun toFixed4 :: "jsnum \<Rightarrow> string option" where
  "toFixed4 NaN = Some ''NaN''"
| "toFixed4 PosInf = Some ''Infinity''"
| "toFixed4 NegInf = Some ''-Infinity''"
| "toFixed4 (Fin x) =
     (if 10 ^ 21 \<le> \<bar>x\<bar> then None
      else let n = \<lfloor>\<bar>x\<bar> * 10000 + 1 / 2\<rfloor>
           in Some ((if x < 0 then ''-'' else '''') @ fixed4 n))"

text \<open>The exact value of a decimal text such as a stored balance (0 for any other text).\<close>

definition decimalValue :: "string \<Rightarrow> rat" where
  "decimalValue s = (case unsignedDecimalValue s of None \<Rightarrow> 0 | Some v \<Rightarrow> v)"

section \<open>Data model\<close>

text \<open>
  The types of \<^verbatim>\<open>src/types\<close> and the two Sequelize models. A string is a list of
  characters; wallet ids, keys and decimal texts are ASCII, so its length is the number of
  octets and \<open><\<close> on strings is the comparison of JavaScript. Calls are modelled one at
  a time: a call runs from its first step to its last on the state the previous one left.
\<close>

datatype TransactionStatus = PENDING | SUCCESS | FAILED

record TransferRequest =
  fromWalletId :: string
  toWalletId :: string
  amount :: string
  idempotencyKey :: string

record TransferResponse =
  success :: bool
  transactionId :: string
  message :: string
  fromBalance :: "string option"
  toBalance :: "string option"

text \<open>
  A thrown value: \<open>TransferError message statusCode code\<close> is the service's own error
  class, \<open>Error name message\<close> any other exception (those of the ledger client).
\<close>

datatype error = TransferError string nat string | Error string string

fun errorName :: "error \<Rightarrow> string" where
  "errorName (TransferError m s c) = ''TransferError''"
| "errorName (Error n m) = n"

fun errorMessage :: "error \<Rightarrow> string" where
  "errorMessage (TransferError m s c) = m"
| "errorMessage (Error n m) = m"

fun isTransferError :: "error \<Rightarrow> bool" where
  "isTransferError (TransferError m s c) = True"
| "isTransferError (Error n m) = False"

text \<open>
  The ledger: the \<^verbatim>\<open>wallets\<close> table keyed by its primary key \<^verbatim>\<open>id\<close>, and the
  \<^verbatim>\<open>transaction_logs\<close> table as the list of its rows in insertion order. The metadata
  column is a JSON object of strings, or NULL.
\<close>

record Wallet =
  userId :: string
  balance :: string
  version :: int

record TransactionLog =
  logId :: string
  logFromWalletId :: string
  logToWalletId :: string
  logAmount :: string
  status :: TransactionStatus
  logIdempotencyKey :: string
  logErrorMessage :: "string option"
  metadata :: "(string \<rightharpoonup> string) option"

record ledger =
  wallets :: "string \<rightharpoonup> Wallet"
  logs :: "TransactionLog list"

text \<open>
  The cache and lock store, restricted to the two key families the service uses:
  \<open>results c k\<close> is the value under \<^verbatim>\<open>idempotency:{k}\<close> (the response that
  \<^verbatim>\<open>JSON.stringify\<close> wrote and \<^verbatim>\<open>JSON.parse\<close> reads back), \<open>locks c k\<close> the value under
  \<^verbatim>\<open>lock:{k}\<close> (the timestamp of the acquisition). Expiry of keys is not modelled.
\<close>

record redis =
  results :: "string \<rightharpoonup> TransferResponse"
  locks :: "string \<rightharpoonup> string"

record world =
  cache :: redis
  store :: ledger

text \<open>
  What a call takes from outside: which client calls throw, the clock and the generated
  log id. \<open>redisThrows\<close> tells for each call to the cache client whether it throws
  (\<open>SET_NX i\<close> is the attempt \<open>i\<close> of the lock loop). \<open>ledgerThrows\<close> gives for each call
  to the ledger the name and message of the exception it raises for a reason that the model
  does not compute (connectivity, timeouts, deadlocks), if any. The validators, the unique
  constraints and the foreign keys of the log table and the checks of a wallet update are
  computed by the model.
\<close>

datatype redis_call = GET | SET_NX nat | SETEX | DEL

datatype ledger_call =
  FallbackFind | ExistingFind | Begin | CreateLog | LockFirst | LockSecond
  | UpdateFrom | UpdateTo | FinalizeLog | Commit | MarkFailed

record env =
  redisThrows :: "redis_call \<Rightarrow> bool"
  ledgerThrows :: "ledger_call \<Rightarrow> (string \<times> string) option"
  dateNow :: string
  requestedAt :: string
  completedAt :: string
  failedAt :: string
  uuidv4 :: string

section \<open>RedisService\<close>

text \<open>In this section \<open>key\<close> is the parameter \<^verbatim>\<open>idempotencyKey\<close> of the methods.\<close>

definition LOCK_MAX_RETRIES :: nat where
  "LOCK_MAX_RETRIES = 50"

text \<open>
  \<^verbatim>\<open>SET lock:{key} now EX 30 NX\<close>: sets the key only if it is absent. A failure of the
  client is answered with \<open>True\<close> (fail open).
\<close>

definition acquireLock :: "env \<Rightarrow> nat \<Rightarrow> string \<Rightarrow> redis \<Rightarrow> bool \<times> redis" where
  "acquireLock e attempt key c =
     (if redisThrows e (SET_NX attempt) then (True, c)
      else (case locks c key of
              None \<Rightarrow> (True, c\<lparr>locks := (locks c)(key \<mapsto> dateNow e)\<rparr>)
            | Some holder \<Rightarrow> (False, c)))"

definition releaseLock :: "env \<Rightarrow> string \<Rightarrow> redis \<Rightarrow> redis" where
  "releaseLock e key c =
     (if redisThrows e DEL then c
      else c\<lparr>locks := (locks c)(key := None)\<rparr>)"

text \<open>
  The retry loop: \<open>remaining\<close> attempts are left, \<open>attempt\<close> is the loop counter. The
  sleep between two attempts does not change the store.
\<close>

fun acquireLockLoop :: "env \<Rightarrow> string \<Rightarrow> nat \<Rightarrow> nat \<Rightarrow> redis \<Rightarrow> bool \<times> redis" where
  "acquireLockLoop e key 0 attempt c = (False, c)"
| "acquireLockLoop e key (Suc remaining) attempt c =
     (case acquireLock e attempt key c of
        (True, c') \<Rightarrow> (True, c')
      | (False, c') \<Rightarrow> acquireLockLoop e key remaining (Suc attempt) c')"

definition acquireLockWithRetry :: "env \<Rightarrow> string \<Rightarrow> redis \<Rightarrow> bool \<times> redis" where
  "acquireLockWithRetry e key c =
     acquireLockLoop e key LOCK_MAX_RETRIES 0 c"

definition getCachedResult :: "env \<Rightarrow> string \<Rightarrow> redis \<Rightarrow> TransferResponse option" where
  "getCachedResult e key c =
     (if redisThrows e GET then None else results c key)"

definition cacheResult :: "env \<Rightarrow> string \<Rightarrow> TransferResponse \<Rightarrow> redis \<Rightarrow> redis" where
  "cacheResult e key result c =
     (if redisThrows e SETEX then c
      else c\<lparr>results := (results c)(key \<mapsto> result)\<rparr>)"

section \<open>TransferService\<close>

subsection \<open>validateTransferRequest\<close>

definition isHexDigit :: "char \<Rightarrow> bool" where
  "isHexDigit c =
     (isDigit c \<or> (CHR ''a'' \<le> c \<and> c \<le> CHR ''f'') \<or> (CHR ''A'' \<le> c \<and> c \<le> CHR ''F''))"

text \<open>\<open>hexDigits n s\<close> reads exactly \<open>n\<close> hexadecimal digits and returns the rest.\<close>

fun hexDigits :: "nat \<Rightarrow> string \<Rightarrow> string option" where
  "hexDigits 0 s = Some s"
| "hexDigits (Suc n) [] = None"
| "hexDigits (Suc n) (c # s) = (if isHexDigit c then hexDigits n s else None)"

fun hyphen :: "string \<Rightarrow> string option" where
  "hyphen [] = None"
| "hyphen (c # s) = (if c = CHR ''-'' then Some s else None)"

text \<open>
  The test of \<^verbatim>\<open>/^[0-9a-f]{8}-[0-9a-f]{4}-[0-9a-f]{4}-[0-9a-f]{4}-[0-9a-f]{12}$/i\<close>.
\<close>

definition uuidRegexTest :: "string \<Rightarrow> bool" where
  "uuidRegexTest s =
     (Option.bind (Option.bind (Option.bind (Option.bind (Option.bind (Option.bind
        (Option.bind (Option.bind (hexDigits 8 s) hyphen) (hexDigits 4)) hyphen)
        (hexDigits 4)) hyphen) (hexDigits 4)) hyphen) (hexDigits 12) = Some [])"

definition validateTransferRequest :: "TransferRequest \<Rightarrow> error + unit" where
  "validateTransferRequest request =
     (if fromWalletId request = [] \<or> toWalletId request = [] \<or> amount request = []
         \<or> idempotencyKey request = []
      then Inl (TransferError ''Missing required fields'' 400 ''INVALID_REQUEST'')
      else if fromWalletId request = toWalletId request
      then Inl (TransferError ''Cannot transfer to the same wallet'' 400 ''SAME_WALLET_TRANSFER'')
      else let amountNum = parseFloat (amount request)
           in if isNaN amountNum \<or> js_less_eq amountNum (Fin 0)
              then Inl (TransferError ''Amount must be a positive number'' 400 ''INVALID_AMOUNT'')
              else if js_less amountNum (round64 (1 / 10000))
              then Inl (TransferError ''Amount must be at least 0.0001'' 400 ''AMOUNT_TOO_SMALL'')
              else if uuidRegexTest (fromWalletId request) \<and> uuidRegexTest (toWalletId request)
              then Inr ()
              else Inl (TransferError ''Invalid wallet ID format'' 400 ''INVALID_WALLET_ID''))"

subsection \<open>buildResponseFromLog\<close>

definition buildResponseFromLog :: "TransactionLog \<Rightarrow> TransferResponse" where
  "buildResponseFromLog tlog =
     (let baseResponse =
            \<lparr>success = (status tlog = SUCCESS),
             transactionId = logId tlog,
             message =
               (if status tlog = SUCCESS then ''Transfer already processed (idempotent request)''
                else if status tlog = PENDING then ''Transfer is being processed''
                else ''Transfer previously failed''),
             fromBalance = None,
             toBalance = None\<rparr>
      in if status tlog = SUCCESS
         then (case metadata tlog of
                 None \<Rightarrow> baseResponse
               | Some m \<Rightarrow> baseResponse\<lparr>fromBalance := m ''fromBalanceAfter'',
                                          toBalance := m ''toBalanceAfter''\<rparr>)
         else baseResponse)"

subsection \<open>The ledger calls\<close>

text \<open>\<^verbatim>\<open>TransactionLog.findOne({ where: { idempotencyKey } })\<close>.\<close>

definition findOne :: "string \<Rightarrow> ledger \<Rightarrow> TransactionLog option" where
  "findOne key L = find (\<lambda>l. logIdempotencyKey l = key) (logs L)"

definition findOneCall ::
  "env \<Rightarrow> ledger_call \<Rightarrow> string \<Rightarrow> ledger \<Rightarrow> error + TransactionLog option" where
  "findOneCall e call key L =
     (case ledgerThrows e call of
        Some (n, m) \<Rightarrow> Inl (Error n m)
      | None \<Rightarrow> Inr (findOne key L))"

text \<open>
  The \<^verbatim>\<open>id\<close> columns have the type uuid: the database reads a uuid text in either case
  and returns it in lower case. The service passes only ids that
  \<^verbatim>\<open>validateTransferRequest\<close> has accepted; \<open>uuidCanonical\<close> is the text the database
  keeps for such an id, and the \<open>wallets\<close> table is keyed by these texts.
\<close>

definition toLowerChar :: "char \<Rightarrow> char" where
  "toLowerChar c =
     (if CHR ''A'' \<le> c \<and> c \<le> CHR ''Z'' then char_of (of_char c + (32 :: int)) else c)"

definition uuidCanonical :: "string \<Rightarrow> string" where
  "uuidCanonical s = map toLowerChar s"

text \<open>
  The validators of the \<^verbatim>\<open>TransactionLog\<close> model, with the meaning that Sequelize gives
  them: \<^verbatim>\<open>isDecimal\<close> is the test of
  \<^verbatim>\<open>/^(?:-?(?:[0-9]+))?(?:\.[0-9]*)?(?:[eE][+-]?(?:[0-9]+))?$/\<close> on a non-empty text,
  \<^verbatim>\<open>min\<close> compares \<^verbatim>\<open>parseFloat\<close> of the text and lets NaN pass, \<^verbatim>\<open>notEmpty\<close> rejects a
  text of white space only, and \<^verbatim>\<open>len\<close> bounds the length.
\<close>

definition exponentOrEnd :: "string \<Rightarrow> bool" where
  "exponentOrEnd s =
     (case s of
        [] \<Rightarrow> True
      | c # r \<Rightarrow>
          (c = CHR ''e'' \<or> c = CHR ''E'') \<and>
          (let ds = (case r of
                       [] \<Rightarrow> []
                     | d # r' \<Rightarrow> if d = CHR ''+'' \<or> d = CHR ''-'' then r' else r)
           in ds \<noteq> [] \<and> list_all isDigit ds))"

definition isDecimal :: "string \<Rightarrow> bool" where
  "isDecimal s =
     (s \<noteq> [] \<and>
      (let r0 = (case s of
                   [] \<Rightarrow> []
                 | c # r \<Rightarrow>
                     if c = CHR ''-'' \<and> (case r of [] \<Rightarrow> False | d # r' \<Rightarrow> isDigit d)
                     then r else s);
           r1 = dropWhile isDigit r0;
           r2 = (case r1 of
                   [] \<Rightarrow> []
                 | c # r \<Rightarrow> if c = CHR ''.'' then dropWhile isDigit r else r1)
       in exponentOrEnd r2))"

definition validatorMin :: "string \<Rightarrow> jsnum \<Rightarrow> bool" where
  "validatorMin s val = (let number = parseFloat s in isNaN number \<or> js_less_eq val number)"

definition notEmpty :: "string \<Rightarrow> bool" where
  "notEmpty s = (\<not> list_all isStrWhiteSpace s)"

definition len :: "string \<Rightarrow> nat \<Rightarrow> nat \<Rightarrow> bool" where
  "len s lo hi = (lo \<le> length s \<and> length s \<le> hi)"

fun joinMessages :: "string list \<Rightarrow> string" where
  "joinMessages [] = []"
| "joinMessages [m] = m"
| "joinMessages (m # m' # ms) = m @ [CHR '','', CHR 0x0A] @ joinMessages (m' # ms)"

text \<open>The messages of the validators that the values of a new log fail, in model order.\<close>

definition logValidationErrors :: "TransferRequest \<Rightarrow> string list" where
  "logValidationErrors request =
     (if isDecimal (amount request) then []
      else [''Validation error: Validation isDecimal on amount failed'']) @
     (if validatorMin (amount request) (round64 (1 / 10000)) then []
      else [''Validation error: Validation min on amount failed'']) @
     (if notEmpty (idempotencyKey request) then []
      else [''Validation error: Validation notEmpty on idempotencyKey failed'']) @
     (if len (idempotencyKey request) 1 255 then []
      else [''Validation error: Validation len on idempotencyKey failed''])"

text \<open>
  The value that the DECIMAL(19,4) column reads from a text that passed \<^verbatim>\<open>isDecimal\<close>;
  \<open>None\<close> for a text without a digit before the exponent, which is no numeric literal.
\<close>

definition numericValue :: "string \<Rightarrow> rat option" where
  "numericValue s =
     (case s of
        [] \<Rightarrow> None
      | c # r \<Rightarrow>
          if c = CHR ''-'' then map_option uminus (unsignedDecimalValue r)
          else unsignedDecimalValue s)"

text \<open>
  \<^verbatim>\<open>TransactionLog.create\<close> of the PENDING row. The model validators run first, on the
  values as given. The insert then fails in the database when the amount is no numeric
  literal or, rounded to 4 fractional digits, does not fit DECIMAL(19,4); when a row with
  the idempotency key (or with the generated primary key) exists; and when one of the
  wallet ids has no row in \<^verbatim>\<open>wallets\<close> (the foreign keys, checked after the unique
  indexes). The rescaling of the stored amount is not modelled; the service never reads
  the amount back.
\<close>

definition createPendingLog ::
  "env \<Rightarrow> TransferRequest \<Rightarrow> ledger \<Rightarrow> error + (TransactionLog \<times> ledger)" where
  \<open>createPendingLog e request L =
     (case ledgerThrows e CreateLog of
        Some (n, m) \<Rightarrow> Inl (Error n m)
      | None \<Rightarrow>
          if logValidationErrors request \<noteq> []
          then Inl (Error ''SequelizeValidationError'' (joinMessages (logValidationErrors request)))
          else
          (case numericValue (amount request) of
             None \<Rightarrow>
               Inl (Error ''SequelizeDatabaseError''
                          (''invalid input syntax for type numeric: "'' @ amount request @ ''"''))
           | Some v \<Rightarrow>
               if 10 ^ 19 \<le> \<lfloor>\<bar>v\<bar> * 10000 + 1 / 2\<rfloor>
               then Inl (Error ''SequelizeDatabaseError'' ''numeric field overflow'')
               else
          (case find (\<lambda>l. logIdempotencyKey l = idempotencyKey request \<or> logId l = uuidv4 e)
                  (logs L) of
             Some existing \<Rightarrow> Inl (Error ''SequelizeUniqueConstraintError'' ''Validation error'')
           | None \<Rightarrow>
               if wallets L (uuidCanonical (fromWalletId request)) = None
               then Inl (Error ''SequelizeForeignKeyConstraintError''
                      (''insert or update on table "transaction_logs" violates '' @
                       ''foreign key constraint "transaction_logs_fromWalletId_fkey"''))
               else if wallets L (uuidCanonical (toWalletId request)) = None
               then Inl (Error ''SequelizeForeignKeyConstraintError''
                      (''insert or update on table "transaction_logs" violates '' @
                       ''foreign key constraint "transaction_logs_toWalletId_fkey"''))
               else
               (let transactionLog =
                      \<lparr>logId = uuidv4 e,
                       logFromWalletId = uuidCanonical (fromWalletId request),
                       logToWalletId = uuidCanonical (toWalletId request),
                       logAmount = amount request,
                       status = PENDING,
                       logIdempotencyKey = idempotencyKey request,
                       logErrorMessage = None,
                       metadata = Some [''requestedAt'' \<mapsto> requestedAt e]\<rparr>
                in Inr (transactionLog, L\<lparr>logs := logs L @ [transactionLog]\<rparr>)))))\<close>

text \<open>
  \<^verbatim>\<open>Wallet.findByPk(id, { lock: t.LOCK.UPDATE, transaction: t })\<close>: the row whose id is
  the uuid that the text \<open>walletId\<close> denotes.
\<close>

definition findByPk :: "env \<Rightarrow> ledger_call \<Rightarrow> string \<Rightarrow> ledger \<Rightarrow> error + Wallet option" where
  "findByPk e call walletId L =
     (case ledgerThrows e call of
        Some (n, m) \<Rightarrow> Inl (Error n m)
      | None \<Rightarrow> Inr (wallets L (uuidCanonical walletId)))"

text \<open>
  The form of the texts that \<^verbatim>\<open>toFixed(4)\<close> writes for a non-negative Number below
  \<open>10^21\<close>: integral digits, a point and 4 fractional digits. The bound of 15 integral
  digits of the DECIMAL(19,4) column is checked in \<open>walletUpdate\<close>.
\<close>

definition isDecimalText :: "string \<Rightarrow> bool" where
  "isDecimalText s =
     (takeWhile isDigit s \<noteq> [] \<and>
      (case dropWhile isDigit s of
         [] \<Rightarrow> False
       | c # fp \<Rightarrow> c = CHR ''.'' \<and> length fp = 4 \<and> list_all isDigit fp))"

text \<open>
  \<^verbatim>\<open>wallet.update({ balance, version }, { transaction: t })\<close> on the row \<open>walletId\<close>. The
  model validators and the column types reject a balance that is no decimal text (also the
  exponent notation, \<open>None\<close>), one of more than 15 integral digits, and a version beyond
  the INTEGER range. The result is the text written and the ledger.
\<close>

definition walletUpdate ::
  "env \<Rightarrow> ledger_call \<Rightarrow> string \<Rightarrow> string option \<Rightarrow> int \<Rightarrow> ledger
     \<Rightarrow> error + (string \<times> ledger)" where
  "walletUpdate e call walletId newBalance newVersion L =
     (case ledgerThrows e call of
        Some (n, m) \<Rightarrow> Inl (Error n m)
      | None \<Rightarrow>
          (case newBalance of
             None \<Rightarrow> Inl (Error ''SequelizeValidationError'' ''Validation error'')
           | Some b \<Rightarrow>
               if isDecimalText b then
                 (if 15 < length (takeWhile isDigit b)
                  then Inl (Error ''SequelizeDatabaseError'' ''numeric field overflow'')
                  else if 2147483647 < newVersion
                  then Inl (Error ''SequelizeDatabaseError'' ''integer out of range'')
                  else (case wallets L walletId of
                          None \<Rightarrow> Inr (b, L)
                        | Some row \<Rightarrow>
                            Inr (b, L\<lparr>wallets := (wallets L)(walletId \<mapsto>
                                      row\<lparr>balance := b, version := newVersion\<rparr>)\<rparr>)))
               else Inl (Error ''SequelizeValidationError'' ''Validation error'')))"

text \<open>
  \<^verbatim>\<open>transactionLog.update({ status: SUCCESS, metadata: {...} }, { transaction: t })\<close> on the
  row of the created log.
\<close>

definition finalizeLog ::
  "env \<Rightarrow> string \<Rightarrow> string \<Rightarrow> string \<Rightarrow> ledger \<Rightarrow> error + ledger" where
  "finalizeLog e transactionLogId newFromBalance newToBalance L =
     (case ledgerThrows e FinalizeLog of
        Some (n, m) \<Rightarrow> Inl (Error n m)
      | None \<Rightarrow>
          Inr (L\<lparr>logs := map (\<lambda>l.
                 if logId l = transactionLogId
                 then l\<lparr>status := SUCCESS,
                        metadata := Some ((case metadata l of None \<Rightarrow> Map.empty | Some m \<Rightarrow> m)
                          ++ [''completedAt'' \<mapsto> completedAt e,
                              ''fromBalanceAfter'' \<mapsto> newFromBalance,
                              ''toBalanceAfter'' \<mapsto> newToBalance])\<rparr>
                 else l) (logs L)\<rparr>))"

definition ledgerCall :: "env \<Rightarrow> ledger_call \<Rightarrow> error + unit" where
  "ledgerCall e call =
     (case ledgerThrows e call of
        Some (n, m) \<Rightarrow> Inl (Error n m)
      | None \<Rightarrow> Inr ())"

subsection \<open>The ledger transaction of executeTransfer\<close>

definition lockOrder :: "string \<Rightarrow> string \<Rightarrow> string \<times> string" where
  "lockOrder fromId toId = (if fromId < toId then (fromId, toId) else (toId, fromId))"

text \<open>
  The callback passed to \<^verbatim>\<open>sequelize.transaction\<close>, followed by the commit. \<open>Inl\<close> is a
  throw: the transaction is rolled back and the ledger of the caller stays as it was.
  \<open>Inr\<close> carries the committed ledger, \<^verbatim>\<open>transactionLog.id\<close>, \<^verbatim>\<open>fromBalance\<close> and
  \<^verbatim>\<open>toBalance\<close>. When both id texts are the same, \<^verbatim>\<open>fromWallet\<close> and \<^verbatim>\<open>toWallet\<close> are
  one instance, whose version the first update has already raised. An instance is updated
  under the id of its row, the canonical text of the id it was read under.
\<close>

definition transferTransaction ::
  "env \<Rightarrow> TransferRequest \<Rightarrow> ledger \<Rightarrow> error + (ledger \<times> string \<times> string \<times> string)" where
  "transferTransaction e request L =
     (case ledgerCall e Begin of
        Inl err \<Rightarrow> Inl err
      | Inr u \<Rightarrow>
     (case createPendingLog e request L of
        Inl err \<Rightarrow>
          if errorName err = ''SequelizeUniqueConstraintError''
          then Inl (TransferError ''Duplicate request detected'' 409 ''DUPLICATE_REQUEST'')
          else Inl err
      | Inr (transactionLog, L1) \<Rightarrow>
     (let (firstLockId, secondLockId) = lockOrder (fromWalletId request) (toWalletId request)
      in
     (case findByPk e LockFirst firstLockId L1 of
        Inl err \<Rightarrow> Inl err
      | Inr firstWallet \<Rightarrow>
     (case findByPk e LockSecond secondLockId L1 of
        Inl err \<Rightarrow> Inl err
      | Inr secondWallet \<Rightarrow>
     (let fromWallet = (if fromWalletId request = firstLockId then firstWallet else secondWallet);
          toWallet = (if toWalletId request = firstLockId then firstWallet else secondWallet)
      in
     (case fromWallet of
        None \<Rightarrow> Inl (TransferError ''One or both wallets not found'' 404 ''WALLET_NOT_FOUND'')
      | Some fw \<Rightarrow>
     (case toWallet of
        None \<Rightarrow> Inl (TransferError ''One or both wallets not found'' 404 ''WALLET_NOT_FOUND'')
      | Some tw \<Rightarrow>
     (let fromBalanceNum = parseFloat (balance fw);
          amountNum = parseFloat (amount request)
      in
      if js_less fromBalanceNum amountNum
      then Inl (TransferError
                  (''Insufficient balance. Available: '' @ balance fw @ '', Required: ''
                     @ amount request)
                  400 ''INSUFFICIENT_BALANCE'')
      else
     (let newFromBalance = toFixed4 (js_sub fromBalanceNum amountNum);
          toBalanceNum = parseFloat (balance tw);
          newToBalance = toFixed4 (js_add toBalanceNum amountNum);
          toVersion = (if fromWalletId request = toWalletId request
                       then version fw + 1 else version tw)
      in
     (case walletUpdate e UpdateFrom (uuidCanonical (fromWalletId request)) newFromBalance
             (version fw + 1) L1 of
        Inl err \<Rightarrow> Inl err
      | Inr (fromText, L2) \<Rightarrow>
     (case walletUpdate e UpdateTo (uuidCanonical (toWalletId request)) newToBalance
             (toVersion + 1) L2 of
        Inl err \<Rightarrow> Inl err
      | Inr (toText, L3) \<Rightarrow>
     (case finalizeLog e (logId transactionLog) fromText toText L3 of
        Inl err \<Rightarrow> Inl err
      | Inr L4 \<Rightarrow>
     (case ledgerCall e Commit of
        Inl err \<Rightarrow> Inl err
      | Inr u' \<Rightarrow> Inr (L4, logId transactionLog, fromText, toText)))))))))))))))"

subsection \<open>markTransactionFailed\<close>

text \<open>
  \<^verbatim>\<open>UPDATE transaction_logs SET status = 'FAILED', errorMessage = ..., metadata = metadata ||
  '{"failedAt": ...}' WHERE idempotencyKey = ...\<close>; an exception of the update is logged and
  swallowed.
\<close>

definition markTransactionFailed :: "env \<Rightarrow> string \<Rightarrow> string \<Rightarrow> ledger \<Rightarrow> ledger" where
  "markTransactionFailed e key msg L =
     (case ledgerThrows e MarkFailed of
        Some failure \<Rightarrow> L
      | None \<Rightarrow>
          L\<lparr>logs := map (\<lambda>l.
               if logIdempotencyKey l = key
               then l\<lparr>status := FAILED,
                      logErrorMessage := Some msg,
                      metadata := map_option (\<lambda>m. m ++ [''failedAt'' \<mapsto> failedAt e])
                                    (metadata l)\<rparr>
               else l) (logs L)\<rparr>)"

subsection \<open>executeTransfer\<close>

text \<open>The \<^verbatim>\<open>catch\<close> block of \<^verbatim>\<open>executeTransfer\<close>.\<close>

definition catchBlock ::
  "env \<Rightarrow> string \<Rightarrow> error \<Rightarrow> world \<Rightarrow> (error + TransferResponse) \<times> world" where
  "catchBlock e key err w =
     (let L = markTransactionFailed e key (errorMessage err) (store w)
      in (Inl (if isTransferError err then err
               else TransferError
                      (if errorMessage err = [] then ''Transfer failed due to unexpected error''
                       else errorMessage err)
                      500 ''TRANSFER_FAILED''),
          w\<lparr>store := L\<rparr>))"

text \<open>The \<^verbatim>\<open>finally\<close> block: step 6, the release of the lock.\<close>

definition finallyBlock ::
  "env \<Rightarrow> string \<Rightarrow> (error + TransferResponse) \<times> world \<Rightarrow> (error + TransferResponse) \<times> world"
  where
  "finallyBlock e key outcome =
     (fst outcome, (snd outcome)\<lparr>cache := releaseLock e key (cache (snd outcome))\<rparr>)"

text \<open>
  Steps 4 and 5 inside the \<^verbatim>\<open>try\<close>: the ledger transaction and the caching of the
  success response, with the \<^verbatim>\<open>catch\<close> block for a throw of the transaction.
\<close>

definition executeNewTransfer ::
  "env \<Rightarrow> TransferRequest \<Rightarrow> world \<Rightarrow> (error + TransferResponse) \<times> world" where
  "executeNewTransfer e request w =
     (case transferTransaction e request (store w) of
        Inl err \<Rightarrow> catchBlock e (idempotencyKey request) err w
      | Inr (L, transactionLogId, newFromBalance, newToBalance) \<Rightarrow>
          (let successResponse =
                 \<lparr>success = True,
                  transactionId = transactionLogId,
                  message = ''Transfer completed successfully'',
                  fromBalance = Some newFromBalance,
                  toBalance = Some newToBalance\<rparr>
           in (Inr successResponse,
               \<lparr>cache = cacheResult e (idempotencyKey request) successResponse (cache w),
                store = L\<rparr>)))"

text \<open>The \<^verbatim>\<open>try\<close> statement: steps 3 to 6.\<close>

definition lockedSection ::
  "env \<Rightarrow> TransferRequest \<Rightarrow> world \<Rightarrow> (error + TransferResponse) \<times> world" where
  "lockedSection e request w =
     finallyBlock e (idempotencyKey request)
       (case findOneCall e ExistingFind (idempotencyKey request) (store w) of
          Inl err \<Rightarrow> catchBlock e (idempotencyKey request) err w
        | Inr (Some existingTransaction) \<Rightarrow>
            (let result = buildResponseFromLog existingTransaction
             in (Inr result,
                 w\<lparr>cache := cacheResult e (idempotencyKey request) result (cache w)\<rparr>))
        | Inr None \<Rightarrow> executeNewTransfer e request w)"

definition executeTransfer ::
  "env \<Rightarrow> TransferRequest \<Rightarrow> world \<Rightarrow> (error + TransferResponse) \<times> world" where
  "executeTransfer e request w =
     (case validateTransferRequest request of
        Inl err \<Rightarrow> (Inl err, w)
      | Inr u \<Rightarrow>
     (case getCachedResult e (idempotencyKey request) (cache w) of
        Some cachedResult \<Rightarrow>
          (Inr (cachedResult\<lparr>message :=
                  ''Transfer already processed (idempotent request) (from cache)''\<rparr>), w)
      | None \<Rightarrow>
     (case acquireLockWithRetry e (idempotencyKey request) (cache w) of
        (False, c) \<Rightarrow>
          (case findOneCall e FallbackFind (idempotencyKey request) (store w) of
             Inl err \<Rightarrow> (Inl err, w\<lparr>cache := c\<rparr>)
           | Inr (Some existingTransaction) \<Rightarrow>
               (let result = buildResponseFromLog existingTransaction
                in (Inr result,
                    w\<lparr>cache := cacheResult e (idempotencyKey request) result c\<rparr>))
           | Inr None \<Rightarrow>
               (Inl (TransferError
                       ''Request is being processed by another instance. Please retry.''
                       409 ''CONCURRENT_PROCESSING''),
                w\<lparr>cache := c\<rparr>))
      | (True, c) \<Rightarrow> lockedSection e request (w\<lparr>cache := c\<rparr>))))"

section \<open>Sequences of calls and ledger totals\<close>

text \<open>The world after a sequence of calls, each with its own environment.\<close>

fun runCalls :: "(env \<times> TransferRequest) list \<Rightarrow> world \<Rightarrow> world" where
  "runCalls [] w = w"
| "runCalls (call # calls) w = runCalls calls (snd (executeTransfer (fst call) (snd call) w))"

text \<open>The exact sum of the balances of the wallets \<open>ids\<close>.\<close>

definition totalBalance :: "string list \<Rightarrow> ledger \<Rightarrow> rat" where
  "totalBalance ids L =
     sum_list (map (\<lambda>i. case wallets L i of None \<Rightarrow> 0 | Some row \<Rightarrow> decimalValue (balance row)) ids)"

text \<open>
  \<open>replayState key orig w\<close>: the ledger holds a SUCCESS log for \<open>key\<close> with the id and the
  post-trade balances of the response \<open>orig\<close>, and the cache holds for \<open>key\<close> either
  nothing or a response with the same id, success flag and balances.
\<close>

definition replayState :: "string \<Rightarrow> TransferResponse \<Rightarrow> world \<Rightarrow> bool" where
  "replayState key orig w =
     ((case findOne key (store w) of
         None \<Rightarrow> False
       | Some l \<Rightarrow>
           status l = SUCCESS \<and> logId l = transactionId orig \<and>
           (case metadata l of
              None \<Rightarrow> False
            | Some m \<Rightarrow> m ''fromBalanceAfter'' = fromBalance orig \<and>
                        m ''toBalanceAfter'' = toBalance orig)) \<and>
      (case results (cache w) key of
         None \<Rightarrow> True
       | Some cached \<Rightarrow>
           success cached \<and> transactionId cached = transactionId orig \<and>
           fromBalance cached = fromBalance orig \<and> toBalance cached = toBalance orig))"

text \<open>
  No committed row of the log table is in the state PENDING. A PENDING row exists only
  inside the open transaction that inserted it, where no other reader sees it.
\<close>

definition noPending :: "ledger \<Rightarrow> bool" where
  "noPending L = list_all (\<lambda>l. status l \<noteq> PENDING) (logs L)"

text \<open>The two lookups of a log by idempotency key do not throw.\<close>

definition lookupsWork :: "env \<Rightarrow> bool" where
  "lookupsWork e = (ledgerThrows e ExistingFind = None \<and> ledgerThrows e FallbackFind = None)"

section \<open>Concrete requests, environments and worlds\<close>

text \<open>The two wallets of the seed script, a quiet environment and the scenarios of the tests.\<close>

definition aliceId :: string where
  "aliceId = ''11111111-1111-1111-1111-111111111112''"

definition bobId :: string where
  "bobId = ''22222222-2222-2222-2222-222222222222''"

definition calm :: env where
  "calm =
     \<lparr>redisThrows = (\<lambda>c. False),
      ledgerThrows = (\<lambda>c. None),
      dateNow = ''1770201045123'',
      requestedAt = ''2026-02-04T10:30:45.123Z'',
      completedAt = ''2026-02-04T10:30:45.456Z'',
      failedAt = ''2026-02-04T10:30:45.789Z'',
      uuidv4 = ''550e8400-e29b-41d4-a716-446655440000''\<rparr>"

text \<open>Alice holds \<open>a\<close>, Bob holds \<open>b\<close>; no logs, an empty cache.\<close>

definition seeded :: "string \<Rightarrow> string \<Rightarrow> world" where
  "seeded a b =
     \<lparr>cache = \<lparr>results = Map.empty, locks = Map.empty\<rparr>,
      store = \<lparr>wallets = [aliceId \<mapsto> \<lparr>userId = ''alice'', balance = a, version = 0\<rparr>,
                          bobId \<mapsto> \<lparr>userId = ''bob'', balance = b, version = 0\<rparr>],
               logs = []\<rparr>\<rparr>"

text \<open>Alice pays Bob the amount \<open>a\<close> under the idempotency key \<open>k\<close>.\<close>

definition pay :: "string \<Rightarrow> string \<Rightarrow> TransferRequest" where
  "pay a k = \<lparr>fromWalletId = aliceId, toWalletId = bobId, amount = a, idempotencyKey = k\<rparr>"

text \<open>The cache client is unreachable: every call to it throws.\<close>

definition redisDown :: env where
  "redisDown = calm\<lparr>redisThrows := (\<lambda>c. True)\<rparr>"

text \<open>A second service instance: its own clock and generated id, the cache unreachable.\<close>

definition secondInstance :: env where
  "secondInstance =
     redisDown\<lparr>uuidv4 := ''660e8400-e29b-41d4-a716-446655440001'',
               failedAt := ''2026-02-04T10:30:45.999Z''\<rparr>"

text \<open>The cache client throws at every call but the delete of the lock.\<close>

definition cacheRecovers :: env where
  "cacheRecovers = calm\<lparr>redisThrows := (\<lambda>c. case c of DEL \<Rightarrow> False | _ \<Rightarrow> True)\<rparr>"

text \<open>The lookup of step 3 fails once with a connection error; every later call works.\<close>

definition lookupTimeout :: env where
  "lookupTimeout =
     calm\<lparr>ledgerThrows := (\<lambda>c. if c = ExistingFind
                                 then Some (''SequelizeConnectionError'', ''Connection terminated'')
                                 else None)\<rparr>"

text \<open>
  The cache client sets the lock, but neither the write of the result nor the release of
  the lock gets through: after such a call the lock key stays until it expires.
\<close>

definition cacheWritesFail :: env where
  "cacheWritesFail =
     calm\<lparr>redisThrows := (\<lambda>c. case c of SETEX \<Rightarrow> True | DEL \<Rightarrow> True | _ \<Rightarrow> False)\<rparr>"

text \<open>Another request holds the lock of the key \<open>k\<close>.\<close>

definition lockHeld :: "string \<Rightarrow> world \<Rightarrow> world" where
  "lockHeld k w = w\<lparr>cache := (cache w)\<lparr>locks := (locks (cache w))(k \<mapsto> ''1770201044000'')\<rparr>\<rparr>"

text \<open>
  A ledger with a PENDING log for the key \<^verbatim>\<open>c1\<close>, while another request holds the lock
  of that key. The service never commits such a row; the world serves for its cache.
\<close>

definition pendingLog :: TransactionLog where
  "pendingLog =
     \<lparr>logId = ''770e8400-e29b-41d4-a716-446655440002'',
      logFromWalletId = aliceId,
      logToWalletId = bobId,
      logAmount = ''100.0000'',
      status = PENDING,
      logIdempotencyKey = ''c1'',
      logErrorMessage = None,
      metadata = Some [''requestedAt'' \<mapsto> ''2026-02-04T10:30:44.000Z'']\<rparr>"

definition pendingWorld :: world where
  "pendingWorld =
     \<lparr>cache = \<lparr>results = Map.empty, locks = [''c1'' \<mapsto> ''1770201044000'']\<rparr>,
      store = (store (seeded ''1000.0000'' ''500.0000''))\<lparr>logs := [pendingLog]\<rparr>\<rparr>"

text \<open>A request that is valid except for its idempotency key of 256 octets.\<close>

definition longKeyRequest :: TransferRequest where
  "longKeyRequest = pay ''100.0000'' (replicate 256 (CHR ''k''))"

text \<open>
  A third wallet, whose id has letters, a world in which it holds \<open>a\<close>, and a request that
  names it twice, once in upper case.
\<close>

definition carolId :: string where
  "carolId = ''abcdef00-aaaa-4bbb-8ccc-ddddeeeeffff''"

definition carolUpperId :: string where
  "carolUpperId = ''ABCDEF00-AAAA-4BBB-8CCC-DDDDEEEEFFFF''"

definition carolWorld :: "string \<Rightarrow> world" where
  "carolWorld a =
     \<lparr>cache = \<lparr>results = Map.empty, locks = Map.empty\<rparr>,
      store = \<lparr>wallets = [carolId \<mapsto> \<lparr>userId = ''carol'', balance = a, version = 0\<rparr>],
               logs = []\<rparr>\<rparr>"

definition selfTransfer :: "string \<Rightarrow> string \<Rightarrow> TransferRequest" where
  "selfTransfer a k =
     \<lparr>fromWalletId = carolUpperId, toWalletId = carolId, amount = a, idempotencyKey = k\<rparr>"

text \<open>A well-formed wallet id that has no row.\<close>

definition daveId :: string where
  "daveId = ''33333333-3333-3333-3333-333333333333''"

section \<open>Predicates on outcomes\<close>

text \<open>The outcome of a call that has just carried out its transfer.\<close>

definition freshSuccess :: "error + TransferResponse \<Rightarrow> bool" where
  "freshSuccess outcome =
     (case outcome of
        Inl err \<Rightarrow> False
      | Inr resp \<Rightarrow> success resp \<and> message resp = ''Transfer completed successfully'')"

text \<open>Two responses that agree on everything but the message, the first one successful.\<close>

definition sameResult :: "TransferResponse \<Rightarrow> TransferResponse \<Rightarrow> bool" where
  "sameResult orig resp =
     (transactionId resp = transactionId orig \<and> success resp \<and>
      fromBalance resp = fromBalance orig \<and> toBalance resp = toBalance orig)"

section \<open>The binary exponent\<close>

text \<open>\<open>ilog2\<close> is the exponent that the rounding to binary64 takes it for.\<close>

lemma pow2_powi: "pow2 e = 2 powi e"
  by (simp add: pow2_def power_int_def field_simps)

lemma pow2_pos: "0 < pow2 e"
  by (simp add: pow2_def)

lemma pow2_diff: "pow2 (x - y) = pow2 x / pow2 y"
  by (simp add: pow2_powi power_int_diff)

lemma pow2_nat: "pow2 (int n) = 2 ^ n"
  by (simp add: pow2_def)

lemma pow2_Suc: "pow2 (x + 1) = 2 * pow2 x"
  by (simp add: pow2_powi power_int_add)

lemma pow2_pred: "pow2 (x - 1) = pow2 x / 2"
  by (simp add: pow2_powi power_int_diff)

lemma ilog2_bounds:
  assumes "0 < q"
  shows "pow2 (ilog2 q) \<le> q \<and> q < pow2 (ilog2 q + 1)"
proof -
  obtain a b where ab: "quotient_of q = (a, b)" by (cases "quotient_of q")
  then have b: "0 < b" using quotient_of_denom_pos by blast
  have q: "q = of_int a / of_int b" using ab by (simp add: quotient_of_div)
  with assms b have a: "0 < a"
    by (simp add: zero_less_divide_iff)
  define m where "m = nat (bitlen a)"
  define n where "n = nat (bitlen b)"
  have "bitlen a \<noteq> 0" "bitlen b \<noteq> 0" using a b by (simp_all add: bitlen_eq_zero_iff)
  with bitlen_nonneg [of a] bitlen_nonneg [of b]
  have la: "bitlen a = int m" "1 \<le> m" and lb: "bitlen b = int n" "1 \<le> n"
    by (auto simp: m_def n_def)
  from bitlen_bounds [OF a] la have a1: "2 ^ (m - 1) \<le> a" and a2: "a < 2 ^ m"
    by (auto simp: nat_diff_distrib)
  from bitlen_bounds [OF b] lb have b1: "2 ^ (n - 1) \<le> b" and b2: "b < 2 ^ n"
    by (auto simp: nat_diff_distrib)
  have A1: "(2::rat) ^ m / 2 \<le> of_int a"
  proof -
    have "(2::rat) ^ (m - 1) \<le> of_int a" using a1 by (metis of_int_le_iff of_int_numeral of_int_power)
    moreover have "(2::rat) ^ m = 2 * 2 ^ (m - 1)" using la(2) by (cases m) auto
    ultimately show ?thesis by simp
  qed
  have A2: "of_int a < (2::rat) ^ m"
    using a2 by (metis of_int_less_iff of_int_numeral of_int_power)
  have B1: "(2::rat) ^ n / 2 \<le> of_int b"
  proof -
    have "(2::rat) ^ (n - 1) \<le> of_int b" using b1 by (metis of_int_le_iff of_int_numeral of_int_power)
    moreover have "(2::rat) ^ n = 2 * 2 ^ (n - 1)" using lb(2) by (cases n) auto
    ultimately show ?thesis by simp
  qed
  have B2: "of_int b < (2::rat) ^ n"
    using b2 by (metis of_int_less_iff of_int_numeral of_int_power)
  have bpos: "(0::rat) < of_int b" using b by simp
  have d: "pow2 (bitlen a - bitlen b) = 2 ^ m / 2 ^ n"
    by (simp add: la lb pow2_diff pow2_nat)
  have up: "q < 2 * (2 ^ m / 2 ^ n)"
  proof -
    have "q < 2 ^ m / of_int b" unfolding q using A2 bpos by (simp add: divide_strict_right_mono)
    also have "\<dots> \<le> 2 ^ m / (2 ^ n / 2)"
      using B1 by (intro divide_left_mono) (auto intro: mult_pos_pos bpos)
    finally show ?thesis by (simp add: mult.commute)
  qed
  have lo: "(2 ^ m / 2 ^ n) / 2 \<le> q"
  proof -
    have "((2::rat) ^ m / 2) / 2 ^ n \<le> of_int a / 2 ^ n"
      using A1 by (intro divide_right_mono) auto
    also have "\<dots> \<le> of_int a / of_int b"
      using B2 a bpos by (intro divide_left_mono) (auto intro: mult_pos_pos)
    finally show ?thesis unfolding q by simp
  qed
  show ?thesis
    using up lo ab d by (auto simp: ilog2_def Let_def pow2_Suc pow2_pred)
qed

section \<open>Rounding to binary64\<close>

lemma pow2_mono: "a \<le> b \<Longrightarrow> pow2 a \<le> pow2 b"
  by (simp add: pow2_powi power_int_increasing)

lemma pow2_strict_mono: "a < b \<Longrightarrow> pow2 a < pow2 b"
  by (simp add: pow2_powi power_int_strict_increasing)

lemma pow2_between:
  assumes "pow2 a \<le> r" and "r < pow2 b"
  shows "a < b"
proof (rule ccontr)
  assume "\<not> a < b"
  then have "pow2 b \<le> pow2 a" by (simp add: pow2_mono)
  with assms show False by simp
qed

lemma round_half_even_error: "\<bar>of_int (round_half_even x) - x\<bar> \<le> 1 / 2"
proof -
  define r where "r = x - of_int \<lfloor>x\<rfloor>"
  have r: "0 \<le> r" "r < 1" unfolding r_def by linarith+
  have x: "x = of_int \<lfloor>x\<rfloor> + r" by (simp add: r_def)
  have "round_half_even x = (if r < 1 / 2 then \<lfloor>x\<rfloor>
         else if 1 / 2 < r then \<lfloor>x\<rfloor> + 1
         else if even \<lfloor>x\<rfloor> then \<lfloor>x\<rfloor> else \<lfloor>x\<rfloor> + 1)"
    by (simp add: round_half_even_def Let_def r_def)
  then have "of_int (round_half_even x) - x = - r \<or> of_int (round_half_even x) - x = 1 - r"
    and "r < 1 / 2 \<longrightarrow> of_int (round_half_even x) - x = - r"
    and "1 / 2 < r \<longrightarrow> of_int (round_half_even x) - x = 1 - r"
    using x by (auto split: if_splits)
  with r show ?thesis by (cases "r < 1 / 2"; cases "1 / 2 < r") (auto simp: abs_if)
qed

lemma round_half_even_nonneg: "0 \<le> x \<Longrightarrow> 0 \<le> round_half_even x"
  by (auto simp: round_half_even_def Let_def)

lemma ilog2_zero: "ilog2 0 = - 2"
  by (simp add: ilog2_def pow2_def compute_bitlen)

text \<open>The rounding of a positive value below \<open>2^k\<close> errs by at most \<open>2^(k - 54)\<close>.\<close>

lemma round64_close:
  assumes "0 < v" and "v < pow2 k" and "- 1021 \<le> k" and "k \<le> 1023"
  shows "\<exists>r. round64 v = Fin r \<and> 0 \<le> r \<and> \<bar>r - v\<bar> \<le> pow2 (k - 54)"
proof -
  define p where "p = max (ilog2 v - 52) (- 1074)"
  define m where "m = round_half_even (v / pow2 p)"
  define r where "r = of_int m * pow2 p"
  from ilog2_bounds [OF assms(1)] assms(2) have "ilog2 v < k"
    by (intro pow2_between [of _ v]) auto
  with assms(3) have p: "p \<le> k - 53" by (simp add: p_def)
  have pp: "0 < pow2 p" by (rule pow2_pos)
  have "0 \<le> v / pow2 p" using assms(1) pp by simp
  then have m0: "0 \<le> m" unfolding m_def by (rule round_half_even_nonneg)
  then have r0: "0 \<le> r" using pp by (simp add: r_def)
  have "\<bar>of_int m - v / pow2 p\<bar> \<le> 1 / 2" unfolding m_def by (rule round_half_even_error)
  then have "\<bar>of_int m - v / pow2 p\<bar> * pow2 p \<le> 1 / 2 * pow2 p"
    using pp by (intro mult_right_mono) auto
  moreover have "\<bar>of_int m - v / pow2 p\<bar> * pow2 p = \<bar>r - v\<bar>"
  proof -
    have "\<bar>of_int m - v / pow2 p\<bar> * pow2 p = \<bar>(of_int m - v / pow2 p) * pow2 p\<bar>"
      using pp by (simp add: abs_mult)
    also have "(of_int m - v / pow2 p) * pow2 p = r - v"
      using pp by (simp add: r_def left_diff_distrib)
    finally show ?thesis .
  qed
  ultimately have "\<bar>r - v\<bar> \<le> pow2 p / 2" by simp
  also have "\<dots> = pow2 (p - 1)" by (simp add: pow2_pred)
  also have "\<dots> \<le> pow2 (k - 54)" using p by (intro pow2_mono) simp
  finally have err: "\<bar>r - v\<bar> \<le> pow2 (k - 54)" .
  have small: "ilog2 r < 1024"
  proof (cases "r = 0")
    case True
    then show ?thesis by (simp add: ilog2_zero)
  next
    case False
    with r0 have rpos: "0 < r" by simp
    have "pow2 (k - 54) \<le> pow2 k" by (intro pow2_mono) simp
    with err assms(2) have "r < pow2 k + pow2 k" by (simp add: abs_le_iff)
    also have "\<dots> = pow2 (k + 1)" by (simp add: pow2_Suc)
    finally have "r < pow2 (k + 1)" .
    with ilog2_bounds [OF rpos] have "ilog2 r < k + 1"
      by (intro pow2_between [of _ r]) auto
    with assms(4) show ?thesis by simp
  qed
  have "round64 v = Fin r"
    using assms(1) small by (simp add: round64_def Let_def p_def m_def r_def)
  with r0 err show ?thesis by blast
qed

lemma toFixed4_near:
  assumes "0 \<le> r" and "\<bar>r * 10000 - of_int n\<bar> < 1 / 2" and "r < 10 ^ 21"
  shows "toFixed4 (Fin r) = Some (fixed4 n)"
proof -
  have "\<lfloor>r * 10000 + 1 / 2\<rfloor> = n"
    using assms(2) by (intro floor_unique) linarith+
  with assms(1,3) show ?thesis by (simp add: Let_def)
qed

lemma scale_near:
  fixes r t :: rat
  assumes "\<bar>r - t / 10000\<bar> \<le> 1 / 32768"
  shows "\<bar>r * 10000 - t\<bar> < 1 / 2"
proof -
  have "r * 10000 - t = (r - t / 10000) * 10000" by (simp add: algebra_simps)
  then have "\<bar>r * 10000 - t\<bar> = \<bar>(r - t / 10000) * 10000\<bar>" by (rule arg_cong)
  also have "\<dots> = \<bar>r - t / 10000\<bar> * 10000" by (simp only: abs_mult abs_numeral)
  also have "\<dots> \<le> 1 / 32768 * 10000" using assms by (intro mult_right_mono) auto
  also have "\<dots> < 1 / 2" by simp
  finally show ?thesis .
qed

lemma round64_zero: "round64 0 = Fin 0"
  by (simp add: round64_def)

text \<open>The Number read from a decimal text of 4 fractional digits below \<open>2^37\<close>.\<close>

lemma units_close:
  assumes "0 \<le> k" and "of_int k / 10000 < pow2 37"
  shows "\<exists>r. round64 (of_int k / 10000) = Fin r \<and> 0 \<le> r \<and>
             \<bar>r - of_int k / 10000\<bar> \<le> 1 / 131072"
proof (cases "k = 0")
  case True
  then show ?thesis by (simp add: round64_zero)
next
  case False
  with assms(1) have "(0::rat) < of_int k / 10000" by simp
  from round64_close [OF this assms(2)] show ?thesis by (simp add: pow2_def)
qed

lemma sum_close:
  assumes "0 \<le> s" and "s < pow2 38"
  shows "\<exists>r. round64 s = Fin r \<and> 0 \<le> r \<and> \<bar>r - s\<bar> \<le> 1 / 65536"
proof (cases "s = 0")
  case True
  then show ?thesis by (simp add: round64_zero)
next
  case False
  with assms(1) have "0 < s" by simp
  from round64_close [OF this assms(2)] show ?thesis by (simp add: pow2_def)
qed

lemma add_exact:
  assumes "0 \<le> ka" and "0 \<le> kc" and "of_int (kc + ka) / 10000 < pow2 37"
  shows "toFixed4 (js_add (round64 (of_int kc / 10000)) (round64 (of_int ka / 10000))) =
           Some (fixed4 (kc + ka))"
proof -
  have "of_int kc / 10000 \<le> (of_int (kc + ka) / 10000 :: rat)"
       "of_int ka / 10000 \<le> (of_int (kc + ka) / 10000 :: rat)"
    using assms(1,2) by simp_all
  with assms(3) have c: "of_int kc / 10000 < pow2 37" and a: "of_int ka / 10000 < pow2 37"
    by simp_all
  from units_close [OF assms(2) c] obtain rc where
    rc: "round64 (of_int kc / 10000) = Fin rc" "0 \<le> rc" "\<bar>rc - of_int kc / 10000\<bar> \<le> 1 / 131072"
    by blast
  from units_close [OF assms(1) a] obtain ra where
    ra: "round64 (of_int ka / 10000) = Fin ra" "0 \<le> ra" "\<bar>ra - of_int ka / 10000\<bar> \<le> 1 / 131072"
    by blast
  have s0: "0 \<le> rc + ra" using rc(2) ra(2) by simp
  have split: "(of_int (kc + ka) / 10000 :: rat) = of_int kc / 10000 + of_int ka / 10000"
    by (simp add: add_divide_distrib)
  have es: "\<bar>(rc + ra) - of_int (kc + ka) / 10000\<bar> \<le> 1 / 65536"
    unfolding split using rc(3) ra(3) by linarith
  have "rc + ra < pow2 37 + 1 / 65536"
    using es assms(3) by linarith
  also have "\<dots> < pow2 38" by (simp add: pow2_def)
  finally have "rc + ra < pow2 38" .
  from sum_close [OF s0 this] obtain r where
    r: "round64 (rc + ra) = Fin r" "0 \<le> r" "\<bar>r - (rc + ra)\<bar> \<le> 1 / 65536"
    by blast
  have er: "\<bar>r - of_int (kc + ka) / 10000\<bar> \<le> 1 / 32768"
    using r(3) es by linarith
  have near: "\<bar>r * 10000 - of_int (kc + ka)\<bar> < 1 / 2"
    using er by (rule scale_near)
  have "r < pow2 37 + 1 / 32768" using er assms(3) by linarith
  also have "\<dots> < 10 ^ 21" by (simp add: pow2_def)
  finally have "r < 10 ^ 21" .
  from toFixed4_near [OF r(2) near this] rc(1) ra(1) r(1) show ?thesis by simp
qed

lemma sub_exact:
  assumes "0 \<le> ka" and "ka \<le> kb" and "of_int kb / 10000 < pow2 37"
  shows "toFixed4 (js_sub (round64 (of_int kb / 10000)) (round64 (of_int ka / 10000))) =
           Some (fixed4 (kb - ka))"
proof -
  have kb0: "0 \<le> kb" using assms(1,2) by simp
  have "of_int ka / 10000 \<le> (of_int kb / 10000 :: rat)" using assms(2) by simp
  with assms(3) have a: "of_int ka / 10000 < pow2 37" by simp
  from units_close [OF kb0 assms(3)] obtain rb where
    rb: "round64 (of_int kb / 10000) = Fin rb" "0 \<le> rb" "\<bar>rb - of_int kb / 10000\<bar> \<le> 1 / 131072"
    by blast
  from units_close [OF assms(1) a] obtain ra where
    ra: "round64 (of_int ka / 10000) = Fin ra" "0 \<le> ra" "\<bar>ra - of_int ka / 10000\<bar> \<le> 1 / 131072"
    by blast
  have split: "(of_int (kb - ka) / 10000 :: rat) = of_int kb / 10000 - of_int ka / 10000"
    by (simp add: diff_divide_distrib)
  have es: "\<bar>(rb - ra) - of_int (kb - ka) / 10000\<bar> \<le> 1 / 65536"
    unfolding split using rb(3) ra(3) by linarith
  have d0: "0 \<le> rb - ra"
  proof (cases "ka = kb")
    case True
    with rb(1) ra(1) show ?thesis by simp
  next
    case False
    with assms(2) have "1 \<le> kb - ka" by simp
    then have "(1::rat) \<le> of_int (kb - ka)" by (metis of_int_1 of_int_le_iff)
    then have "(1 / 10000 :: rat) \<le> of_int (kb - ka) / 10000" by simp
    with es show ?thesis by linarith
  qed
  have "of_int (kb - ka) / 10000 \<le> (of_int kb / 10000 :: rat)" using assms(1) by simp
  with es assms(3) have "rb - ra < pow2 37 + 1 / 65536" by linarith
  also have "\<dots> < pow2 38" by (simp add: pow2_def)
  finally have "rb - ra < pow2 38" .
  from sum_close [OF d0 this] obtain r where
    r: "round64 (rb - ra) = Fin r" "0 \<le> r" "\<bar>r - (rb - ra)\<bar> \<le> 1 / 65536"
    by blast
  have er: "\<bar>r - of_int (kb - ka) / 10000\<bar> \<le> 1 / 32768"
    using r(3) es by linarith
  have near: "\<bar>r * 10000 - of_int (kb - ka)\<bar> < 1 / 2"
    using er by (rule scale_near)
  have "of_int (kb - ka) / 10000 \<le> (of_int kb / 10000 :: rat)" using assms(1) by simp
  with er assms(3) have "r < pow2 37 + 1 / 32768" by linarith
  also have "\<dots> < 10 ^ 21" by (simp add: pow2_def)
  finally have "r < 10 ^ 21" .
  from toFixed4_near [OF r(2) near this] rb(1) ra(1) r(1) show ?thesis
    by (simp add: js_sub_def)
qed

section \<open>Decimal texts\<close>

lemma digit_cases:
  fixes k :: int
  assumes "0 \<le> k" and "k < 10"
  shows "k = 0 \<or> k = 1 \<or> k = 2 \<or> k = 3 \<or> k = 4 \<or> k = 5 \<or> k = 6 \<or> k = 7 \<or> k = 8 \<or> k = 9"
  using assms by arith

lemma digit_char:
  fixes k :: int
  assumes "0 \<le> k" and "k < 10"
  shows "isDigit (char_of (k + 48)) \<and> digitVal (char_of (k + 48)) = k \<and>
         \<not> isStrWhiteSpace (char_of (k + 48)) \<and> char_of (k + 48) \<noteq> CHR ''-'' \<and>
         char_of (k + 48) \<noteq> CHR ''+'' \<and> char_of (k + 48) \<noteq> CHR ''I''"
  using digit_cases [OF assms]
  by (elim disjE; hypsubst; code_simp)

declare digitsOf.simps [simp del]

lemma digit_not_special:
  assumes "isDigit c"
  shows "\<not> isStrWhiteSpace c \<and> c \<noteq> CHR ''-'' \<and> c \<noteq> CHR ''+'' \<and> c \<noteq> CHR ''I'' \<and> c \<noteq> CHR ''.''"
  using assms by (auto simp: isDigit_def isStrWhiteSpace_def)

lemma not_digit_point: "\<not> isDigit (CHR ''.'')"
  by (simp add: isDigit_def)

lemma digitsVal_snoc: "digitsVal (xs @ [c]) = 10 * digitsVal xs + digitVal c"
  by (simp add: digitsVal_def)

lemma digitsOf_props:
  assumes "0 \<le> m"
  shows "digitsOf m \<noteq> [] \<and> list_all isDigit (digitsOf m) \<and> digitsVal (digitsOf m) = m"
  using assms
proof (induction m rule: digitsOf.induct)
  case (1 n)
  show ?case
  proof (cases "n < 10")
    case True
    with "1.prems" digit_char [of n] show ?thesis
      by (simp add: digitsVal_def digitsOf.simps [of n])
  next
    case False
    then have d: "0 \<le> n div 10" by simp
    have k: "0 \<le> n mod 10" "n mod 10 < 10" by simp_all
    from "1.IH" [OF False d] digit_char [OF k] False show ?thesis
      by (simp add: digitsVal_snoc digitsOf.simps [of n])
  qed
qed

lemma takeWhile_digits:
  assumes "list_all isDigit xs" and "\<not> isDigit y"
  shows "takeWhile isDigit (xs @ y # ys) = xs" and "dropWhile isDigit (xs @ y # ys) = y # ys"
  using assms by (induction xs) auto

lemma takeWhile_all_digits:
  assumes "list_all isDigit xs"
  shows "takeWhile isDigit xs = xs" and "dropWhile isDigit xs = []"
  using assms by (induction xs) auto

lemma units_split:
  fixes n :: int
  shows "n div 10000 * 10000 + n div 1000 mod 10 * 1000 + n div 100 mod 10 * 100
           + n div 10 mod 10 * 10 + n mod 10 = n"
proof -
  have e: "n div 100 = n div 10 div 10" "n div 1000 = n div 100 div 10"
    "n div 10000 = n div 1000 div 10"
    by (simp_all add: div_mult2_eq [symmetric])
  have a: "n = n div 10 * 10 + n mod 10" by simp
  have b: "n div 10 = n div 100 * 10 + n div 10 mod 10"
    unfolding e by simp
  have c: "n div 100 = n div 1000 * 10 + n div 100 mod 10"
    unfolding e(2) by simp
  have d: "n div 1000 = n div 10000 * 10 + n div 1000 mod 10"
    unfolding e(3) by simp
  from a b c d show ?thesis by linarith
qed

lemma digitsVal_four:
  "digitsVal (xs @ [c3, c2, c1, c0]) =
     10 * (10 * (10 * (10 * digitsVal xs + digitVal c3) + digitVal c2) + digitVal c1) + digitVal c0"
  by (simp add: digitsVal_def)

lemma unsignedDecimalValue_point:
  assumes "list_all isDigit ip" and "ip \<noteq> []" and "list_all isDigit fp"
  shows "unsignedDecimalValue (ip @ CHR ''.'' # fp) =
           Some (of_int (digitsVal (ip @ fp)) * pow10 (- int (length fp)))"
proof -
  have tw: "takeWhile isDigit (ip @ CHR ''.'' # fp) = ip"
    "dropWhile isDigit (ip @ CHR ''.'' # fp) = CHR ''.'' # fp"
    using assms(1) not_digit_point by (simp_all add: takeWhile_digits)
  show ?thesis
    unfolding unsignedDecimalValue_def tw Let_def
    using assms(2)
    by (simp add: exponentPart_def takeWhile_all_digits [OF assms(3)])
qed

text \<open>The text that \<open>fixed4\<close> writes is read back as the units it was written from.\<close>

lemma unsignedDecimalValue_fixed4:
  assumes "0 \<le> n"
  shows "unsignedDecimalValue (fixed4 n) = Some (of_int n / 10000)"
proof -
  define ip where "ip = digitsOf (n div 10000)"
  define k3 k2 k1 k0 where "k3 = n div 1000 mod 10" and "k2 = n div 100 mod 10"
    and "k1 = n div 10 mod 10" and "k0 = n mod 10"
  define c3 c2 c1 c0 where "c3 = char_of (k3 + 48)" and "c2 = char_of (k2 + 48)"
    and "c1 = char_of (k1 + 48)" and "c0 = char_of (k0 + 48)"
  have m: "0 \<le> n div 10000" using assms by simp
  from digitsOf_props [OF m]
  have ip: "ip \<noteq> []" "list_all isDigit ip" "digitsVal ip = n div 10000"
    by (simp_all add: ip_def)
  have k3: "0 \<le> k3" "k3 < 10" and k2: "0 \<le> k2" "k2 < 10" and k1: "0 \<le> k1" "k1 < 10"
    and k0: "0 \<le> k0" "k0 < 10" by (simp_all add: k3_def k2_def k1_def k0_def)
  from digit_char [OF k3] have d3: "isDigit c3" "digitVal c3 = k3" by (simp_all add: c3_def)
  from digit_char [OF k2] have d2: "isDigit c2" "digitVal c2 = k2" by (simp_all add: c2_def)
  from digit_char [OF k1] have d1: "isDigit c1" "digitVal c1 = k1" by (simp_all add: c1_def)
  from digit_char [OF k0] have d0: "isDigit c0" "digitVal c0 = k0" by (simp_all add: c0_def)
  have fp: "list_all isDigit [c3, c2, c1, c0]" using d3 d2 d1 d0 by simp
  have f4: "fixed4 n = ip @ CHR ''.'' # [c3, c2, c1, c0]"
    by (simp add: fixed4_def ip_def c3_def c2_def c1_def c0_def k3_def k2_def k1_def k0_def)
  have "digitsVal (ip @ [c3, c2, c1, c0]) =
      n div 10000 * 10000 + k3 * 1000 + k2 * 100 + k1 * 10 + k0"
    unfolding digitsVal_four ip(3) d3(2) d2(2) d1(2) d0(2) by simp
  also have "\<dots> = n" unfolding k3_def k2_def k1_def k0_def by (rule units_split)
  finally have val: "digitsVal (ip @ [c3, c2, c1, c0]) = n" .
  from unsignedDecimalValue_point [OF ip(2) ip(1) fp]
  show ?thesis unfolding f4 val by (simp add: pow10_def)
qed

lemma parseFloat_digit:
  assumes "isDigit c"
  shows "parseFloat (c # rest) =
           (case unsignedDecimalValue (c # rest) of None \<Rightarrow> NaN | Some v \<Rightarrow> round64 v)"
  using digit_not_special [OF assms]
  by (simp add: parseFloat_def Let_def isPrefixOf_def split: option.splits)

lemma parseFloat_fixed4:
  assumes "0 \<le> n"
  shows "parseFloat (fixed4 n) = round64 (of_int n / 10000)"
proof -
  have m: "0 \<le> n div 10000" using assms by simp
  from digitsOf_props [OF m] obtain c cs where ip: "digitsOf (n div 10000) = c # cs" "isDigit c"
    by (cases "digitsOf (n div 10000)") auto
  then obtain rest where f: "fixed4 n = c # rest" by (simp add: fixed4_def)
  from parseFloat_digit [OF ip(2), of rest] unsignedDecimalValue_fixed4 [OF assms]
  show ?thesis unfolding f by simp
qed

lemma decimalValue_fixed4: "0 \<le> n \<Longrightarrow> decimalValue (fixed4 n) = of_int n / 10000"
  by (simp add: decimalValue_def unsignedDecimalValue_fixed4)

section \<open>Wallets change only inside a committed transaction\<close>

lemma markTransactionFailed_wallets:
  "wallets (markTransactionFailed e key msg L) = wallets L"
  by (simp add: markTransactionFailed_def split: option.splits)

lemma catchBlock_result:
  assumes "catchBlock e key err w = (outcome, w')"
  shows "isl outcome \<and> wallets (store w') = wallets (store w) \<and> cache w' = cache w"
  using assms by (auto simp: catchBlock_def Let_def markTransactionFailed_wallets)

lemma executeNewTransfer_wallets:
  assumes "executeNewTransfer e request w = (outcome, w')"
  shows "(isl outcome \<and> wallets (store w') = wallets (store w)) \<or> freshSuccess outcome"
proof (cases "transferTransaction e request (store w)")
  case (Inl err)
  with assms have "catchBlock e (idempotencyKey request) err w = (outcome, w')"
    by (simp add: executeNewTransfer_def)
  from catchBlock_result [OF this] show ?thesis by simp
next
  case (Inr r)
  with assms show ?thesis
    by (auto simp: executeNewTransfer_def Let_def freshSuccess_def split: prod.splits)
qed

lemma lockedSection_wallets:
  assumes "lockedSection e request w = (outcome, w')"
  shows "wallets (store w') = wallets (store w) \<or> freshSuccess outcome"
proof (cases "findOneCall e ExistingFind (idempotencyKey request) (store w)")
  case (Inl err)
  obtain o1 w1 where c: "catchBlock e (idempotencyKey request) err w = (o1, w1)"
    by (cases "catchBlock e (idempotencyKey request) err w")
  from catchBlock_result [OF c] c Inl assms show ?thesis
    by (auto simp: lockedSection_def finallyBlock_def)
next
  case (Inr found)
  show ?thesis
  proof (cases found)
    case None
    obtain o1 w1 where n: "executeNewTransfer e request w = (o1, w1)"
      by (cases "executeNewTransfer e request w")
    from executeNewTransfer_wallets [OF n] n Inr None assms show ?thesis
      by (auto simp: lockedSection_def finallyBlock_def)
  next
    case (Some existing)
    with Inr assms show ?thesis
      by (auto simp: lockedSection_def finallyBlock_def Let_def)
  qed
qed

lemma executeTransfer_wallets:
  assumes "executeTransfer e request w = (outcome, w')"
  shows "wallets (store w') = wallets (store w) \<or> freshSuccess outcome"
proof -
  have locked: "wallets (store w2) = wallets (store w) \<or> freshSuccess out2"
    if "lockedSection e request (w\<lparr>cache := c\<rparr>) = (out2, w2)" for c out2 w2
    using lockedSection_wallets [OF that] by simp
  from assms show ?thesis
    by (auto simp: executeTransfer_def Let_def
             split: sum.splits option.splits prod.splits bool.splits dest: locked)
qed


section \<open>The log table after a call\<close>

lemma find_map_same:
  assumes "\<And>x. P (f x) = P x" and "\<And>x. P x \<Longrightarrow> f x = x"
  shows "find P (map f xs) = find P xs"
  using assms by (induction xs) auto

lemma findOne_markTransactionFailed:
  assumes "k \<noteq> key"
  shows "findOne k (markTransactionFailed e key msg L) = findOne k L"
proof (cases "ledgerThrows e MarkFailed")
  case None
  have "find (\<lambda>l. logIdempotencyKey l = k)
          (map (\<lambda>l. if logIdempotencyKey l = key
                    then l\<lparr>status := FAILED, logErrorMessage := Some msg,
                           metadata := map_option (\<lambda>m. m ++ [''failedAt'' \<mapsto> failedAt e])
                                         (metadata l)\<rparr>
                    else l) (logs L))
        = find (\<lambda>l. logIdempotencyKey l = k) (logs L)"
    using assms by (intro find_map_same) auto
  with None show ?thesis by (simp add: findOne_def markTransactionFailed_def)
next
  case (Some a)
  then show ?thesis by (simp add: markTransactionFailed_def)
qed

lemma catchBlock_frame:
  assumes "catchBlock e key err w = (outcome, w')" and "k \<noteq> key"
  shows "findOne k (store w') = findOne k (store w) \<and> cache w' = cache w"
  using assms by (auto simp: catchBlock_def Let_def findOne_markTransactionFailed)

lemma createPendingLog_Inr:
  assumes "createPendingLog e request L = Inr (row, L1)"
  shows "find (\<lambda>l. logIdempotencyKey l = idempotencyKey request \<or> logId l = uuidv4 e) (logs L) = None
         \<and> logId row = uuidv4 e \<and> logIdempotencyKey row = idempotencyKey request
         \<and> status row = PENDING \<and> metadata row = Some [''requestedAt'' \<mapsto> requestedAt e]
         \<and> logs L1 = logs L @ [row] \<and> wallets L1 = wallets L
         \<and> wallets L (uuidCanonical (fromWalletId request)) \<noteq> None
         \<and> wallets L (uuidCanonical (toWalletId request)) \<noteq> None
         \<and> logValidationErrors request = []"
  using assms
  by (simp add: createPendingLog_def Let_def split: option.splits if_splits) auto

lemma walletUpdate_Inr:
  assumes "walletUpdate e call i b v L = Inr (t, L')"
  shows "logs L' = logs L \<and> b = Some t"
  using assms by (auto simp: walletUpdate_def split: option.splits if_splits)

lemma finalizeLog_Inr:
  assumes "finalizeLog e tid fb tb L = Inr L'"
  shows "logs L' = map (\<lambda>l.
                 if logId l = tid
                 then l\<lparr>status := SUCCESS,
                        metadata := Some ((case metadata l of None \<Rightarrow> Map.empty | Some m \<Rightarrow> m)
                          ++ [''completedAt'' \<mapsto> completedAt e,
                              ''fromBalanceAfter'' \<mapsto> fb,
                              ''toBalanceAfter'' \<mapsto> tb])\<rparr>
                 else l) (logs L)"
  using assms by (auto simp: finalizeLog_def split: option.splits)

text \<open>What a committed transaction leaves in the log table.\<close>

lemma transferTransaction_logs:
  assumes "transferTransaction e request L = Inr (L', tid, fb, tb)"
  shows "\<exists>row. find (\<lambda>l. logIdempotencyKey l = idempotencyKey request \<or> logId l = uuidv4 e) (logs L) = None
           \<and> tid = uuidv4 e
           \<and> logs L' = logs L @ [row]
           \<and> logId row = tid \<and> logIdempotencyKey row = idempotencyKey request \<and> status row = SUCCESS
           \<and> (\<exists>m. metadata row = Some m \<and> m ''fromBalanceAfter'' = Some fb \<and> m ''toBalanceAfter'' = Some tb)"
proof -
  from assms obtain row0 L1 ft L2 tt L3 i1 b1 v1 i2 b2 v2 where
    c: "createPendingLog e request L = Inr (row0, L1)" and
    u1: "walletUpdate e UpdateFrom i1 b1 v1 L1 = Inr (ft, L2)" and
    u2: "walletUpdate e UpdateTo i2 b2 v2 L2 = Inr (tt, L3)" and
    f: "finalizeLog e (logId row0) ft tt L3 = Inr L'" and
    r: "tid = logId row0" "fb = ft" "tb = tt"
    by (auto simp: transferTransaction_def Let_def
             split: sum.splits prod.splits option.splits if_splits)
  note C = createPendingLog_Inr [OF c]
  from C have none: "find (\<lambda>l. logIdempotencyKey l = idempotencyKey request \<or> logId l = uuidv4 e) (logs L) = None"
    by simp
  then have old: "\<And>l. l \<in> set (logs L) \<Longrightarrow> logId l \<noteq> uuidv4 e"
    by (auto simp: find_None_iff)
  have l3: "logs L3 = logs L @ [row0]"
    using walletUpdate_Inr [OF u1] walletUpdate_Inr [OF u2] C by simp
  let ?fin = "\<lambda>l. if logId l = logId row0
                 then l\<lparr>status := SUCCESS,
                        metadata := Some ((case metadata l of None \<Rightarrow> Map.empty | Some m \<Rightarrow> m)
                          ++ [''completedAt'' \<mapsto> completedAt e,
                              ''fromBalanceAfter'' \<mapsto> ft,
                              ''toBalanceAfter'' \<mapsto> tt])\<rparr>
                 else l"
  have "map ?fin (logs L) = logs L"
    using old C by (intro map_idI) auto
  with finalizeLog_Inr [OF f] l3 have "logs L' = logs L @ [?fin row0]" by simp
  with none C r show ?thesis by (intro exI [of _ "?fin row0"]) auto
qed

lemma find_append_other:
  assumes "\<not> P x"
  shows "find P (xs @ [x]) = find P xs"
  using assms by (induction xs) auto

lemma find_append_new:
  assumes "find P xs = None" and "P x"
  shows "find P (xs @ [x]) = Some x"
  using assms by (induction xs) (auto split: if_splits)

lemma find_None_weaken:
  assumes "find (\<lambda>l. P l \<or> Q l) xs = None"
  shows "find P xs = None"
  using assms by (auto simp: find_None_iff)

lemma transferTransaction_findOne_other:
  assumes "transferTransaction e request L = Inr (L', tid, fb, tb)" and "k \<noteq> idempotencyKey request"
  shows "findOne k L' = findOne k L"
  using transferTransaction_logs [OF assms(1)] assms(2)
  by (auto simp: findOne_def find_append_other)

lemma transferTransaction_findOne_own:
  assumes "transferTransaction e request L = Inr (L', tid, fb, tb)"
  shows "\<exists>row m. findOne (idempotencyKey request) L' = Some row \<and> status row = SUCCESS \<and> logId row = tid
           \<and> metadata row = Some m \<and> m ''fromBalanceAfter'' = Some fb \<and> m ''toBalanceAfter'' = Some tb"
proof -
  from transferTransaction_logs [OF assms] obtain row m where
    n: "find (\<lambda>l. logIdempotencyKey l = idempotencyKey request \<or> logId l = uuidv4 e) (logs L) = None"
    and l: "logs L' = logs L @ [row]" "logId row = tid" "logIdempotencyKey row = idempotencyKey request"
           "status row = SUCCESS" "metadata row = Some m" "m ''fromBalanceAfter'' = Some fb"
           "m ''toBalanceAfter'' = Some tb"
    by blast
  from find_None_weaken [OF n] l(3)
  have "find (\<lambda>l. logIdempotencyKey l = idempotencyKey request) (logs L @ [row]) = Some row"
    by (intro find_append_new) auto
  with l show ?thesis by (auto simp: findOne_def)
qed

section \<open>Calls that do not touch a key, and calls that replay it\<close>

lemma acquireLockLoop_results:
  "results (snd (acquireLockLoop e key n i c)) = results c"
  by (induction n arbitrary: i c) (auto simp: acquireLock_def split: option.splits)

lemma acquireLockWithRetry_results:
  assumes "acquireLockWithRetry e key c = (got, c')"
  shows "results c' = results c"
  using acquireLockLoop_results [of e key LOCK_MAX_RETRIES 0 c] assms
  by (simp add: acquireLockWithRetry_def)

lemma releaseLock_results: "results (releaseLock e key c) = results c"
  by (simp add: releaseLock_def)

lemma cacheResult_results:
  "results (cacheResult e key r c) k =
     (if redisThrows e SETEX \<or> k \<noteq> key then results c k else Some r)"
  by (simp add: cacheResult_def)

text \<open>A call under another key leaves the log and the cache entry of \<open>k\<close> alone.\<close>

lemma executeNewTransfer_frame:
  assumes "executeNewTransfer e request w = (outcome, w')" and "k \<noteq> idempotencyKey request"
  shows "findOne k (store w') = findOne k (store w) \<and> results (cache w') k = results (cache w) k"
proof (cases "transferTransaction e request (store w)")
  case (Inl err)
  with assms have "catchBlock e (idempotencyKey request) err w = (outcome, w')"
    by (simp add: executeNewTransfer_def)
  from catchBlock_frame [OF this assms(2)] show ?thesis by simp
next
  case (Inr r)
  obtain L' tid fb tb where r: "r = (L', tid, fb, tb)" by (cases r)
  from transferTransaction_findOne_other [OF Inr [unfolded r] assms(2)] assms Inr r
  show ?thesis
    by (auto simp: executeNewTransfer_def Let_def cacheResult_results)
qed

lemma lockedSection_frame:
  assumes "lockedSection e request w = (outcome, w')" and "k \<noteq> idempotencyKey request"
  shows "findOne k (store w') = findOne k (store w) \<and> results (cache w') k = results (cache w) k"
proof (cases "findOneCall e ExistingFind (idempotencyKey request) (store w)")
  case (Inl err)
  obtain o1 w1 where c: "catchBlock e (idempotencyKey request) err w = (o1, w1)"
    by (cases "catchBlock e (idempotencyKey request) err w")
  from catchBlock_frame [OF c assms(2)] c Inl assms(1) show ?thesis
    by (auto simp: lockedSection_def finallyBlock_def releaseLock_results)
next
  case (Inr found)
  show ?thesis
  proof (cases found)
    case None
    obtain o1 w1 where n: "executeNewTransfer e request w = (o1, w1)"
      by (cases "executeNewTransfer e request w")
    from executeNewTransfer_frame [OF n assms(2)] n Inr None assms(1) show ?thesis
      by (auto simp: lockedSection_def finallyBlock_def releaseLock_results)
  next
    case (Some existing)
    with Inr assms show ?thesis
      by (auto simp: lockedSection_def finallyBlock_def Let_def releaseLock_results
                     cacheResult_results)
  qed
qed

lemma executeTransfer_frame:
  assumes "executeTransfer e request w = (outcome, w')" and "k \<noteq> idempotencyKey request"
  shows "findOne k (store w') = findOne k (store w) \<and> results (cache w') k = results (cache w) k"
proof (cases "validateTransferRequest request")
  case (Inl err)
  with assms show ?thesis by (simp add: executeTransfer_def)
next
  case (Inr u)
  show ?thesis
  proof (cases "getCachedResult e (idempotencyKey request) (cache w)")
    case (Some cached)
    with Inr assms show ?thesis by (simp add: executeTransfer_def)
  next
    case None
    obtain got c where a: "acquireLockWithRetry e (idempotencyKey request) (cache w) = (got, c)"
      by (cases "acquireLockWithRetry e (idempotencyKey request) (cache w)")
    note rc = acquireLockWithRetry_results [OF a]
    show ?thesis
    proof (cases got)
      case True
      with Inr None a assms(1)
      have "lockedSection e request (w\<lparr>cache := c\<rparr>) = (outcome, w')"
        by (simp add: executeTransfer_def)
      from lockedSection_frame [OF this assms(2)] rc show ?thesis by simp
    next
      case False
      with Inr None a assms rc show ?thesis
        by (auto simp: executeTransfer_def Let_def cacheResult_results
                 split: sum.splits option.splits)
    qed
  qed
qed

lemma replayState_log:
  assumes "replayState key orig w"
  obtains l where "findOne key (store w) = Some l"
    and "sameResult orig (buildResponseFromLog l)"
  using assms
  by (auto simp: replayState_def sameResult_def buildResponseFromLog_def Let_def
           split: option.splits)

lemma replayState_cached:
  assumes "replayState key orig w" and "results (cache w) key = Some cached"
  shows "sameResult orig cached"
  using assms by (auto simp: replayState_def sameResult_def split: option.splits)

lemma replayState_intro:
  assumes "findOne key (store w') = findOne key (store w)"
    and "results (cache w') key = results (cache w) key \<or>
         (\<exists>resp. results (cache w') key = Some resp \<and> sameResult orig resp)"
    and "replayState key orig w"
  shows "replayState key orig w'"
  using assms by (auto simp: replayState_def sameResult_def split: option.splits)

text \<open>A call with the key of a completed transfer: served from the cache or from the log.\<close>

lemma lockedSection_replay:
  assumes "lockedSection e request w = (outcome, w')"
    and "findOne (idempotencyKey request) (store w) = Some l"
    and "ledgerThrows e ExistingFind = None"
  shows "outcome = Inr (buildResponseFromLog l) \<and> store w' = store w \<and>
         results (cache w') = results (cacheResult e (idempotencyKey request) (buildResponseFromLog l) (cache w))"
  using assms
  by (auto simp: lockedSection_def finallyBlock_def findOneCall_def Let_def releaseLock_results)

lemma executeTransfer_replay:
  assumes "executeTransfer e request w = (outcome, w')"
    and "replayState (idempotencyKey request) orig w"
    and "lookupsWork e"
  shows "replayState (idempotencyKey request) orig w' \<and>
         (validateTransferRequest request = Inr () \<longrightarrow>
            (\<exists>resp. outcome = Inr resp \<and> sameResult orig resp))"
proof (cases "validateTransferRequest request")
  case (Inl err)
  with assms show ?thesis by (simp add: executeTransfer_def)
next
  case (Inr u)
  from assms(2) obtain l where l: "findOne (idempotencyKey request) (store w) = Some l"
    and same: "sameResult orig (buildResponseFromLog l)"
    by (rule replayState_log)
  show ?thesis
  proof (cases "getCachedResult e (idempotencyKey request) (cache w)")
    case (Some cached)
    then have "results (cache w) (idempotencyKey request) = Some cached"
      by (simp add: getCachedResult_def split: if_splits)
    from replayState_cached [OF assms(2) this] Some Inr assms(1,2) show ?thesis
      by (auto simp: executeTransfer_def sameResult_def)
  next
    case None
    obtain got c where a: "acquireLockWithRetry e (idempotencyKey request) (cache w) = (got, c)"
      by (cases "acquireLockWithRetry e (idempotencyKey request) (cache w)")
    note rc = acquireLockWithRetry_results [OF a]
    have out: "outcome = Inr (buildResponseFromLog l) \<and> store w' = store w \<and>
         results (cache w') = results (cacheResult e (idempotencyKey request) (buildResponseFromLog l) c)"
    proof (cases got)
      case True
      with Inr None a assms(1)
      have "lockedSection e request (w\<lparr>cache := c\<rparr>) = (outcome, w')"
        by (simp add: executeTransfer_def)
      from lockedSection_replay [OF this, of l] l assms(3) show ?thesis
        by (simp add: lookupsWork_def)
    next
      case False
      with Inr None a assms(1,3) l show ?thesis
        by (auto simp: executeTransfer_def Let_def findOneCall_def lookupsWork_def)
    qed
    have "replayState (idempotencyKey request) orig w'"
    proof (rule replayState_intro [OF _ _ assms(2)])
      show "findOne (idempotencyKey request) (store w') = findOne (idempotencyKey request) (store w)"
        using out by simp
      show "results (cache w') (idempotencyKey request) = results (cache w) (idempotencyKey request) \<or>
         (\<exists>resp. results (cache w') (idempotencyKey request) = Some resp \<and> sameResult orig resp)"
        using out rc same by (auto simp: cacheResult_results)
    qed
    with out same show ?thesis by auto
  qed
qed

lemma executeTransfer_keeps_replayState:
  assumes "replayState key orig w" and "idempotencyKey request \<noteq> key \<or> lookupsWork e"
  shows "replayState key orig (snd (executeTransfer e request w))"
proof (cases "key = idempotencyKey request")
  case True
  with executeTransfer_replay [of e request w "fst (executeTransfer e request w)"
         "snd (executeTransfer e request w)" orig] assms
  show ?thesis by simp
next
  case False
  from executeTransfer_frame [of e request w "fst (executeTransfer e request w)"
         "snd (executeTransfer e request w)" key] False
  have "findOne key (store (snd (executeTransfer e request w))) = findOne key (store w)"
    and "results (cache (snd (executeTransfer e request w))) key = results (cache w) key"
    by simp_all
  then show ?thesis using assms(1) by (intro replayState_intro [OF _ _ assms(1)]) simp_all
qed

lemma runCalls_keeps_replayState:
  assumes "replayState key orig w"
    and "list_all (\<lambda>call. idempotencyKey (snd call) \<noteq> key \<or> lookupsWork (fst call)) calls"
  shows "replayState key orig (runCalls calls w)"
  using assms
  by (induction calls arbitrary: w) (auto simp: executeTransfer_keeps_replayState)

section \<open>The first success of a key\<close>

lemma buildResponseFromLog_message:
  "message (buildResponseFromLog l) \<noteq> ''Transfer completed successfully''"
  by (simp add: buildResponseFromLog_def Let_def split: option.splits)

lemma executeNewTransfer_first:
  assumes "executeNewTransfer e request w = (Inr orig, w')"
    and "results (cache w) (idempotencyKey request) = None"
  shows "replayState (idempotencyKey request) orig w'"
proof (cases "transferTransaction e request (store w)")
  case (Inl err)
  with assms(1) have "catchBlock e (idempotencyKey request) err w = (Inr orig, w')"
    by (simp add: executeNewTransfer_def)
  from catchBlock_result [OF this] show ?thesis by simp
next
  case (Inr r)
  obtain L' tid fb tb where r: "r = (L', tid, fb, tb)" by (cases r)
  from transferTransaction_findOne_own [OF Inr [unfolded r]] obtain row m where
    row: "findOne (idempotencyKey request) L' = Some row" "status row = SUCCESS" "logId row = tid"
      "metadata row = Some m" "m ''fromBalanceAfter'' = Some fb" "m ''toBalanceAfter'' = Some tb"
    by blast
  from assms Inr r have
    o: "orig = \<lparr>success = True, transactionId = tid, message = ''Transfer completed successfully'',
                fromBalance = Some fb, toBalance = Some tb\<rparr>"
    and w': "store w' = L'"
       "cache w' = cacheResult e (idempotencyKey request) orig (cache w)"
    by (auto simp: executeNewTransfer_def Let_def)
  from row o w' assms(2) show ?thesis
    by (auto simp: replayState_def cacheResult_results split: option.splits)
qed

lemma replayState_release:
  assumes "replayState key orig w"
  shows "replayState key orig (w\<lparr>cache := releaseLock e k (cache w)\<rparr>)"
  using assms by (simp add: replayState_def releaseLock_results)

lemma lockedSection_first:
  assumes "lockedSection e request w = (Inr orig, w')"
    and "message orig = ''Transfer completed successfully''"
    and "results (cache w) (idempotencyKey request) = None"
  shows "replayState (idempotencyKey request) orig w'"
proof (cases "findOneCall e ExistingFind (idempotencyKey request) (store w)")
  case (Inl err)
  obtain o1 w1 where c: "catchBlock e (idempotencyKey request) err w = (o1, w1)"
    by (cases "catchBlock e (idempotencyKey request) err w")
  from catchBlock_result [OF c] c Inl assms(1) show ?thesis
    by (auto simp: lockedSection_def finallyBlock_def)
next
  case (Inr found)
  show ?thesis
  proof (cases found)
    case None
    obtain o1 w1 where n: "executeNewTransfer e request w = (o1, w1)"
      by (cases "executeNewTransfer e request w")
    with Inr None assms(1) have o1: "o1 = Inr orig"
      and w': "w' = w1\<lparr>cache := releaseLock e (idempotencyKey request) (cache w1)\<rparr>"
      by (auto simp: lockedSection_def finallyBlock_def)
    from executeNewTransfer_first [OF n [unfolded o1] assms(3)] w' show ?thesis
      by (simp add: replayState_release)
  next
    case (Some existing)
    with Inr assms(1,2) buildResponseFromLog_message [of existing] show ?thesis
      by (auto simp: lockedSection_def finallyBlock_def Let_def)
  qed
qed

lemma executeTransfer_first:
  assumes "executeTransfer e request w = (Inr orig, w')"
    and "message orig = ''Transfer completed successfully''"
    and "results (cache w) (idempotencyKey request) = None"
  shows "replayState (idempotencyKey request) orig w'"
proof (cases "validateTransferRequest request")
  case (Inl err)
  with assms show ?thesis by (simp add: executeTransfer_def)
next
  case (Inr u)
  have None: "getCachedResult e (idempotencyKey request) (cache w) = None"
    using assms(3) by (simp add: getCachedResult_def)
  obtain got c where a: "acquireLockWithRetry e (idempotencyKey request) (cache w) = (got, c)"
    by (cases "acquireLockWithRetry e (idempotencyKey request) (cache w)")
  note rc = acquireLockWithRetry_results [OF a]
  show ?thesis
  proof (cases got)
    case True
    with Inr None a assms(1)
    have "lockedSection e request (w\<lparr>cache := c\<rparr>) = (Inr orig, w')"
      by (simp add: executeTransfer_def)
    from lockedSection_first [OF this assms(2)] rc assms(3) show ?thesis by simp
  next
    case False
    with Inr None a assms(1,2) show ?thesis
      using buildResponseFromLog_message
      by (auto simp: executeTransfer_def Let_def split: sum.splits option.splits)
  qed
qed

lemma acquireLockLoop_False:
  assumes "acquireLockLoop e key n i c = (False, c')"
  shows "c' = c"
  using assms
  by (induction n arbitrary: i c) (auto simp: acquireLock_def split: option.splits if_splits bool.splits prod.splits)

section \<open>Exact arithmetic below \<open>2^37\<close>\<close>

lemma walletUpdate_wallets:
  assumes "walletUpdate e call i b v L = Inr (t, L')" and "wallets L i = Some row"
  shows "wallets L' = (wallets L)(i \<mapsto> row\<lparr>balance := t, version := v\<rparr>) \<and> b = Some t"
  using assms by (auto simp: walletUpdate_def split: option.splits if_splits)

lemma finalizeLog_wallets:
  assumes "finalizeLog e tid fb tb L = Inr L'"
  shows "wallets L' = wallets L"
  using assms by (auto simp: finalizeLog_def split: option.splits)

lemma findByPk_Inr:
  assumes "findByPk e call i L = Inr found"
  shows "found = wallets L (uuidCanonical i)"
  using assms by (auto simp: findByPk_def split: option.splits)

text \<open>
  What a committed transfer has read and written; \<open>F\<close> and \<open>T\<close> are the ids of the two
  rows.
\<close>

lemma transferTransaction_Inr:
  assumes "transferTransaction e request L = Inr (L', tid, fb, tb)"
    and "fromWalletId request \<noteq> toWalletId request"
    and "F = uuidCanonical (fromWalletId request)" and "T = uuidCanonical (toWalletId request)"
  shows "\<exists>fw tw.
           wallets L F = Some fw \<and> wallets L T = Some tw \<and>
           \<not> js_less (parseFloat (balance fw)) (parseFloat (amount request)) \<and>
           toFixed4 (js_sub (parseFloat (balance fw)) (parseFloat (amount request))) = Some fb \<and>
           toFixed4 (js_add (parseFloat (balance tw)) (parseFloat (amount request))) = Some tb \<and>
           wallets L' = (wallets L)
             (F \<mapsto> fw\<lparr>balance := fb, version := version fw + 1\<rparr>,
              T \<mapsto> tw\<lparr>balance := tb, version := version tw + 1\<rparr>)"
proof -
  obtain f s where lo: "lockOrder (fromWalletId request) (toWalletId request) = (f, s)"
    by (cases "lockOrder (fromWalletId request) (toWalletId request)")
  with assms(2) have fs: "(f = fromWalletId request \<and> s = toWalletId request) \<or>
      (f = toWalletId request \<and> s = fromWalletId request)"
    by (auto simp: lockOrder_def split: if_splits)
  from assms(1) lo obtain row0 L1 firstWallet secondWallet where
    c: "createPendingLog e request L = Inr (row0, L1)" and
    f1: "findByPk e LockFirst f L1 = Inr firstWallet" and
    f2: "findByPk e LockSecond s L1 = Inr secondWallet"
    by (auto simp: transferTransaction_def Let_def split: sum.splits prod.splits if_splits)
  note C = createPendingLog_Inr [OF c]
  define fromWallet where "fromWallet = (if fromWalletId request = f then firstWallet else secondWallet)"
  define toWallet where "toWallet = (if toWalletId request = f then firstWallet else secondWallet)"
  have roles: "fromWallet = wallets L F" "toWallet = wallets L T"
    using fs assms(2-4) findByPk_Inr [OF f1] findByPk_Inr [OF f2] C
    by (auto simp: fromWallet_def toWallet_def)
  from assms(1) lo c f1 f2 obtain fw tw where
    w: "fromWallet = Some fw" "toWallet = Some tw"
    by (auto simp: transferTransaction_def Let_def fromWallet_def toWallet_def
             split: sum.splits prod.splits option.splits if_splits)
  from assms(1,2) lo c f1 f2 w obtain ft L2 tt L3 where
    enough: "\<not> js_less (parseFloat (balance fw)) (parseFloat (amount request))" and
    u1: "walletUpdate e UpdateFrom (uuidCanonical (fromWalletId request))
           (toFixed4 (js_sub (parseFloat (balance fw)) (parseFloat (amount request))))
           (version fw + 1) L1 = Inr (ft, L2)" and
    u2: "walletUpdate e UpdateTo (uuidCanonical (toWalletId request))
           (toFixed4 (js_add (parseFloat (balance tw)) (parseFloat (amount request))))
           (version tw + 1) L2 = Inr (tt, L3)" and
    fin: "finalizeLog e (logId row0) ft tt L3 = Inr L'" and
    res: "fb = ft" "tb = tt"
    by (auto simp: transferTransaction_def Let_def fromWallet_def toWallet_def
             split: sum.splits prod.splits option.splits if_splits)
  have a: "wallets L F = Some fw" "wallets L T = Some tw"
    using roles w by simp_all
  have r1: "wallets L1 (uuidCanonical (fromWalletId request)) = Some fw"
    using a C assms(3) by simp
  note U1 = walletUpdate_wallets [OF u1 r1]
  define row2 where "row2 = (if F = T then fw\<lparr>balance := ft, version := version fw + 1\<rparr> else tw)"
  have r2: "wallets L2 (uuidCanonical (toWalletId request)) = Some row2"
    using U1 a C assms(3,4) by (simp add: row2_def)
  note U2 = walletUpdate_wallets [OF u2 r2]
  have same: "row2\<lparr>balance := tt, version := version tw + 1\<rparr> =
      tw\<lparr>balance := tt, version := version tw + 1\<rparr>"
    using a by (auto simp: row2_def)
  have "wallets L' = (wallets L)
             (F \<mapsto> fw\<lparr>balance := fb, version := version fw + 1\<rparr>,
              T \<mapsto> tw\<lparr>balance := tb, version := version tw + 1\<rparr>)"
    using U1 U2 finalizeLog_wallets [OF fin] C res assms(3,4) same by simp
  moreover have "toFixed4 (js_sub (parseFloat (balance fw)) (parseFloat (amount request))) = Some fb"
    "toFixed4 (js_add (parseFloat (balance tw)) (parseFloat (amount request))) = Some tb"
    using U1 U2 res by simp_all
  ultimately show ?thesis using a enough by blast
qed

lemma units_order:
  assumes "0 \<le> ka" and "0 \<le> kb"
    and "of_int ka / 10000 < pow2 37" and "of_int kb / 10000 < pow2 37"
    and "\<not> js_less (round64 (of_int kb / 10000)) (round64 (of_int ka / 10000))"
  shows "ka \<le> kb"
proof (rule ccontr)
  assume "\<not> ka \<le> kb"
  then have "kb + 1 \<le> ka" by simp
  then have "(of_int (kb + 1) :: rat) \<le> of_int ka" by (simp only: of_int_le_iff)
  then have gap: "(of_int kb / 10000 :: rat) + 1 / 10000 \<le> of_int ka / 10000"
    by (simp add: add_divide_distrib [symmetric])
  from units_close [OF assms(2,4)] obtain rb where
    rb: "round64 (of_int kb / 10000) = Fin rb" "\<bar>rb - of_int kb / 10000\<bar> \<le> 1 / 131072"
    by blast
  from units_close [OF assms(1,3)] obtain ra where
    ra: "round64 (of_int ka / 10000) = Fin ra" "\<bar>ra - of_int ka / 10000\<bar> \<le> 1 / 131072"
    by blast
  from gap rb(2) ra(2) have "rb < ra" by linarith
  with rb(1) ra(1) assms(5) show False by simp
qed

text \<open>
  Between texts of 4 fractional digits below \<open>2^37\<close> the arithmetic of a committed
  transfer is exact, and the balances of two different rows keep their sum.
\<close>

lemma transfer_exact_below_2_37:
  assumes "transferTransaction e request L = Inr (L', tid, fb, tb)"
    and "fromWalletId request \<noteq> toWalletId request"
    and "F = uuidCanonical (fromWalletId request)" and "T = uuidCanonical (toWalletId request)"
    and "F \<noteq> T"
    and "map_option balance (wallets L F) = Some (fixed4 kb)" and "0 \<le> kb"
    and "map_option balance (wallets L T) = Some (fixed4 kc)" and "0 \<le> kc"
    and "amount request = fixed4 ka" and "0 \<le> ka"
    and "of_int kb / 10000 < pow2 37" and "of_int (kc + ka) / 10000 < pow2 37"
  shows "ka \<le> kb \<and> fb = fixed4 (kb - ka) \<and> tb = fixed4 (kc + ka) \<and>
         map_option balance (wallets L' F) = Some (fixed4 (kb - ka)) \<and>
         map_option balance (wallets L' T) = Some (fixed4 (kc + ka)) \<and>
         totalBalance [F, T] L' = totalBalance [F, T] L"
proof -
  from transferTransaction_Inr [OF assms(1-4)] obtain fw tw where
    fw: "wallets L F = Some fw" and
    tw: "wallets L T = Some tw" and
    enough: "\<not> js_less (parseFloat (balance fw)) (parseFloat (amount request))" and
    nf: "toFixed4 (js_sub (parseFloat (balance fw)) (parseFloat (amount request))) = Some fb" and
    nt: "toFixed4 (js_add (parseFloat (balance tw)) (parseFloat (amount request))) = Some tb" and
    L': "wallets L' = (wallets L)
             (F \<mapsto> fw\<lparr>balance := fb, version := version fw + 1\<rparr>,
              T \<mapsto> tw\<lparr>balance := tb, version := version tw + 1\<rparr>)"
    by blast
  from fw tw assms(6,8) have bal: "balance fw = fixed4 kb" "balance tw = fixed4 kc" by simp_all
  have pf: "parseFloat (balance fw) = round64 (of_int kb / 10000)"
    and pt: "parseFloat (balance tw) = round64 (of_int kc / 10000)"
    and pa: "parseFloat (amount request) = round64 (of_int ka / 10000)"
    using bal assms(7,9,10,11) by (simp_all add: parseFloat_fixed4)
  have "(of_int ka / 10000 :: rat) \<le> of_int (kc + ka) / 10000" using assms(9) by simp
  with assms(13) have a37: "of_int ka / 10000 < pow2 37" by simp
  from units_order [OF assms(11,7) a37 assms(12)] enough
  have le: "ka \<le> kb" by (simp add: pf pa)
  from sub_exact [OF assms(11) le assms(12)] nf have fb: "fb = fixed4 (kb - ka)"
    by (simp add: pf pa)
  from add_exact [OF assms(11,9,13)] nt have tb: "tb = fixed4 (kc + ka)"
    by (simp add: pt pa)
  have after: "map_option balance (wallets L' F) = Some (fixed4 (kb - ka))"
      "map_option balance (wallets L' T) = Some (fixed4 (kc + ka))"
    using L' fb tb assms(5) by simp_all
  have d: "0 \<le> kb - ka" "0 \<le> kc + ka" using le assms(9,11) by simp_all
  have "totalBalance [F, T] L' = of_int (kb - ka) / 10000 + of_int (kc + ka) / 10000"
    using L' fb tb assms(5) d by (simp add: totalBalance_def decimalValue_fixed4)
  also have "\<dots> = of_int kb / 10000 + of_int kc / 10000"
    by (simp add: field_simps)
  also have "\<dots> = totalBalance [F, T] L"
    using fw tw bal assms(7,9) by (simp add: totalBalance_def decimalValue_fixed4)
  finally show ?thesis using le fb tb after by simp
qed

lemma validateTransferRequest_Inr:
  assumes "validateTransferRequest request = Inr u"
  shows "fromWalletId request \<noteq> toWalletId request"
  using assms by (auto simp: validateTransferRequest_def split: if_splits)

text \<open>The response of a transfer just carried out comes from a committed transaction.\<close>

lemma executeNewTransfer_fresh:
  assumes "executeNewTransfer e request w = (Inr resp, w')"
  shows "\<exists>tid fb tb. transferTransaction e request (store w) = Inr (store w', tid, fb, tb) \<and>
           fromBalance resp = Some fb \<and> toBalance resp = Some tb"
proof (cases "transferTransaction e request (store w)")
  case (Inl err)
  with assms have "catchBlock e (idempotencyKey request) err w = (Inr resp, w')"
    by (simp add: executeNewTransfer_def)
  from catchBlock_result [OF this] show ?thesis by simp
next
  case (Inr r)
  with assms show ?thesis
    by (auto simp: executeNewTransfer_def Let_def split: prod.splits)
qed

lemma lockedSection_fresh:
  assumes "lockedSection e request w = (Inr resp, w')"
    and "message resp = ''Transfer completed successfully''"
  shows "\<exists>tid fb tb. transferTransaction e request (store w) = Inr (store w', tid, fb, tb) \<and>
           fromBalance resp = Some fb \<and> toBalance resp = Some tb"
proof (cases "findOneCall e ExistingFind (idempotencyKey request) (store w)")
  case (Inl err)
  obtain o1 w1 where c: "catchBlock e (idempotencyKey request) err w = (o1, w1)"
    by (cases "catchBlock e (idempotencyKey request) err w")
  from catchBlock_result [OF c] c Inl assms(1) show ?thesis
    by (auto simp: lockedSection_def finallyBlock_def)
next
  case (Inr found)
  show ?thesis
  proof (cases found)
    case None
    obtain o1 w1 where n: "executeNewTransfer e request w = (o1, w1)"
      by (cases "executeNewTransfer e request w")
    with Inr None assms(1) have o1: "o1 = Inr resp" and w': "store w' = store w1"
      by (auto simp: lockedSection_def finallyBlock_def)
    from executeNewTransfer_fresh [OF n [unfolded o1]] w' show ?thesis by simp
  next
    case (Some existing)
    with Inr assms buildResponseFromLog_message [of existing] show ?thesis
      by (auto simp: lockedSection_def finallyBlock_def Let_def)
  qed
qed

lemma executeTransfer_fresh:
  assumes "executeTransfer e request w = (Inr resp, w')"
    and "message resp = ''Transfer completed successfully''"
  shows "\<exists>tid fb tb. transferTransaction e request (store w) = Inr (store w', tid, fb, tb) \<and>
           fromBalance resp = Some fb \<and> toBalance resp = Some tb \<and>
           fromWalletId request \<noteq> toWalletId request"
proof (cases "validateTransferRequest request")
  case (Inl err)
  with assms show ?thesis by (simp add: executeTransfer_def)
next
  case (Inr u)
  note ne = validateTransferRequest_Inr [OF Inr]
  show ?thesis
  proof (cases "getCachedResult e (idempotencyKey request) (cache w)")
    case (Some cached)
    with Inr assms show ?thesis by (auto simp: executeTransfer_def)
  next
    case None
    obtain got c where a: "acquireLockWithRetry e (idempotencyKey request) (cache w) = (got, c)"
      by (cases "acquireLockWithRetry e (idempotencyKey request) (cache w)")
    show ?thesis
    proof (cases got)
      case True
      with Inr None a assms(1)
      have "lockedSection e request (w\<lparr>cache := c\<rparr>) = (Inr resp, w')"
        by (simp add: executeTransfer_def)
      from lockedSection_fresh [OF this assms(2)] ne show ?thesis by simp
    next
      case False
      with Inr None a assms show ?thesis
        using buildResponseFromLog_message
        by (auto simp: executeTransfer_def Let_def split: sum.splits option.splits)
    qed
  qed
qed

lemma successful_transfer_exact_below_2_37:
  assumes "executeTransfer e request w = (Inr resp, w')"
    and "message resp = ''Transfer completed successfully''"
    and "F = uuidCanonical (fromWalletId request)" and "T = uuidCanonical (toWalletId request)"
    and "F \<noteq> T"
    and "map_option balance (wallets (store w) F) = Some (fixed4 kb)" and "0 \<le> kb"
    and "map_option balance (wallets (store w) T) = Some (fixed4 kc)" and "0 \<le> kc"
    and "amount request = fixed4 ka" and "0 \<le> ka"
    and "of_int kb / 10000 < pow2 37" and "of_int (kc + ka) / 10000 < pow2 37"
  shows "fromBalance resp = Some (fixed4 (kb - ka)) \<and> toBalance resp = Some (fixed4 (kc + ka)) \<and>
         map_option balance (wallets (store w') F) = Some (fixed4 (kb - ka)) \<and>
         map_option balance (wallets (store w') T) = Some (fixed4 (kc + ka)) \<and>
         totalBalance [F, T] (store w') = totalBalance [F, T] (store w)"
proof -
  from executeTransfer_fresh [OF assms(1,2)] obtain tid fb tb where
    t: "transferTransaction e request (store w) = Inr (store w', tid, fb, tb)" and
    r: "fromBalance resp = Some fb" "toBalance resp = Some tb" and
    ne: "fromWalletId request \<noteq> toWalletId request"
    by blast
  from transfer_exact_below_2_37 [OF t ne assms(3-13)] r show ?thesis by simp
qed

section \<open>Calls that fail\<close>

text \<open>What the \<^verbatim>\<open>catch\<close> block leaves in the log table, for every input.\<close>

lemma createPendingLog_throws:
  assumes "createPendingLog e request L = Inl err"
  shows "\<not> isTransferError err"
  using assms
  by (auto simp: createPendingLog_def Let_def split: option.splits if_splits)

lemma createPendingLog_existing:
  assumes "find (\<lambda>l. logIdempotencyKey l = idempotencyKey request \<or> logId l = uuidv4 e) (logs L)
             \<noteq> None"
  shows "isl (createPendingLog e request L)"
  using assms
  by (auto simp: createPendingLog_def Let_def split: option.splits if_splits)

lemma transferTransaction_insufficient:
  assumes "transferTransaction e request L = Inl (TransferError m s ''INSUFFICIENT_BALANCE'')"
  shows "findOne (idempotencyKey request) L = None"
proof (cases "createPendingLog e request L")
  case (Inl err)
  with assms createPendingLog_throws [OF Inl] show ?thesis
    by (cases err)
       (auto simp: transferTransaction_def ledgerCall_def split: sum.splits option.splits if_splits)
next
  case (Inr r)
  obtain row0 L1 where "r = (row0, L1)" by (cases r)
  with Inr createPendingLog_Inr [of e request L row0 L1] show ?thesis
    by (auto simp: findOne_def dest: find_None_weaken)
qed

lemma findOne_markTransactionFailed_None:
  assumes "findOne key L = None"
  shows "findOne key (markTransactionFailed e key msg L) = None"
  using assms
  by (auto simp: findOne_def markTransactionFailed_def find_None_iff split: option.splits)

lemma catchBlock_insufficient:
  assumes "catchBlock e key err w = (Inl (TransferError m s ''INSUFFICIENT_BALANCE''), w')"
  shows "err = TransferError m s ''INSUFFICIENT_BALANCE'' \<and>
         store w' = markTransactionFailed e key m (store w)"
  using assms by (cases err) (auto simp: catchBlock_def Let_def)

text \<open>
  After a call rejected with INSUFFICIENT_BALANCE the log table has no row for the key of
  the request.
\<close>

lemma executeNewTransfer_insufficient:
  assumes "executeNewTransfer e request w = (Inl (TransferError m s ''INSUFFICIENT_BALANCE''), w')"
  shows "findOne (idempotencyKey request) (store w') = None"
proof (cases "transferTransaction e request (store w)")
  case (Inl err)
  with assms have c: "catchBlock e (idempotencyKey request) err w =
      (Inl (TransferError m s ''INSUFFICIENT_BALANCE''), w')"
    by (simp add: executeNewTransfer_def)
  from catchBlock_insufficient [OF c] Inl transferTransaction_insufficient [of e request "store w" m s]
  show ?thesis by (simp add: findOne_markTransactionFailed_None)
next
  case (Inr r)
  with assms show ?thesis
    by (auto simp: executeNewTransfer_def Let_def split: prod.splits)
qed

lemma lockedSection_insufficient:
  assumes "lockedSection e request w = (Inl (TransferError m s ''INSUFFICIENT_BALANCE''), w')"
  shows "findOne (idempotencyKey request) (store w') = None"
proof (cases "findOneCall e ExistingFind (idempotencyKey request) (store w)")
  case (Inl err)
  then obtain n msg where "err = Error n msg"
    by (auto simp: findOneCall_def split: option.splits)
  with Inl assms show ?thesis
    by (auto simp: lockedSection_def finallyBlock_def catchBlock_def Let_def)
next
  case (Inr found)
  show ?thesis
  proof (cases found)
    case None
    obtain o1 w1 where n: "executeNewTransfer e request w = (o1, w1)"
      by (cases "executeNewTransfer e request w")
    with Inr None assms have "o1 = Inl (TransferError m s ''INSUFFICIENT_BALANCE'')"
      and "store w' = store w1"
      by (auto simp: lockedSection_def finallyBlock_def)
    with executeNewTransfer_insufficient [of e request w m s w1] n show ?thesis by simp
  next
    case (Some existing)
    with Inr assms show ?thesis
      by (auto simp: lockedSection_def finallyBlock_def Let_def)
  qed
qed

lemma validateTransferRequest_codes:
  "validateTransferRequest request \<noteq> Inl (TransferError m s ''INSUFFICIENT_BALANCE'')"
  by (auto simp: validateTransferRequest_def Let_def)

lemma rejected_transfer_has_no_log:
  assumes "executeTransfer e request w = (Inl (TransferError m s ''INSUFFICIENT_BALANCE''), w')"
  shows "findOne (idempotencyKey request) (store w') = None"
proof (cases "validateTransferRequest request")
  case (Inl err)
  with assms validateTransferRequest_codes [of request m s] show ?thesis
    by (simp add: executeTransfer_def)
next
  case (Inr u)
  show ?thesis
  proof (cases "getCachedResult e (idempotencyKey request) (cache w)")
    case (Some cached)
    with Inr assms show ?thesis by (simp add: executeTransfer_def)
  next
    case None
    obtain got c where a: "acquireLockWithRetry e (idempotencyKey request) (cache w) = (got, c)"
      by (cases "acquireLockWithRetry e (idempotencyKey request) (cache w)")
    show ?thesis
    proof (cases got)
      case True
      with Inr None a assms
      have "lockedSection e request (w\<lparr>cache := c\<rparr>) =
          (Inl (TransferError m s ''INSUFFICIENT_BALANCE''), w')"
        by (simp add: executeTransfer_def)
      from lockedSection_insufficient [OF this] show ?thesis .
    next
      case False
      with Inr None a assms show ?thesis
        by (auto simp: executeTransfer_def Let_def findOneCall_def
                 split: sum.splits option.splits)
    qed
  qed
qed

lemma find_map_key:
  assumes "\<And>x. P (f x) = P x"
  shows "find P (map f xs) = map_option f (find P xs)"
  using assms by (induction xs) auto

lemma findOne_markTransactionFailed_own:
  assumes "ledgerThrows e MarkFailed = None" and "findOne key L = Some l"
  shows "map_option status (findOne key (markTransactionFailed e key msg L)) = Some FAILED \<and>
         map_option logErrorMessage (findOne key (markTransactionFailed e key msg L)) =
           Some (Some msg)"
proof -
  let ?f = "\<lambda>l. if logIdempotencyKey l = key
               then l\<lparr>status := FAILED, logErrorMessage := Some msg,
                      metadata := map_option (\<lambda>m. m ++ [''failedAt'' \<mapsto> failedAt e])
                                    (metadata l)\<rparr>
               else l"
  have k: "logIdempotencyKey l = key"
    using assms(2) by (auto simp: findOne_def dest: find_Some_iff [THEN iffD1])
  have "find (\<lambda>l. logIdempotencyKey l = key) (map ?f (logs L)) =
        map_option ?f (find (\<lambda>l. logIdempotencyKey l = key) (logs L))"
    by (rule find_map_key) simp
  with assms k show ?thesis
    by (simp add: findOne_def markTransactionFailed_def)
qed

text \<open>
  Steps 4 to 6 on a ledger that already holds a log for the key: the insert fails, so the
  call fails, and the failure recorder sets that log to FAILED, whatever its status was.
\<close>

lemma existing_log_is_marked_failed:
  assumes "findOne (idempotencyKey request) (store w) = Some l"
    and "ledgerThrows e MarkFailed = None"
  shows "isl (fst (finallyBlock e (idempotencyKey request) (executeNewTransfer e request w))) \<and>
         map_option status (findOne (idempotencyKey request)
           (store (snd (finallyBlock e (idempotencyKey request) (executeNewTransfer e request w)))))
           = Some FAILED"
proof -
  from assms(1) have "find (\<lambda>l. logIdempotencyKey l = idempotencyKey request \<or> logId l = uuidv4 e)
      (logs (store w)) \<noteq> None"
    by (auto simp: findOne_def find_None_iff dest!: find_Some_iff [THEN iffD1])
       (metis nth_mem)
  from createPendingLog_existing [OF this]
  have "isl (transferTransaction e request (store w))"
    by (cases "createPendingLog e request (store w)"; cases "ledgerCall e Begin")
       (simp_all add: transferTransaction_def)
  then obtain err where t: "transferTransaction e request (store w) = Inl err"
    by (cases "transferTransaction e request (store w)") simp_all
  from findOne_markTransactionFailed_own [OF assms(2,1), of "errorMessage err"] t
  show ?thesis
    by (simp add: executeNewTransfer_def finallyBlock_def catchBlock_def Let_def)
qed

section \<open>Committed logs are never PENDING\<close>

lemma markTransactionFailed_noPending:
  assumes "noPending L"
  shows "noPending (markTransactionFailed e key msg L)"
  using assms
  by (auto simp: noPending_def markTransactionFailed_def list_all_iff split: option.splits)

lemma transferTransaction_noPending:
  assumes "transferTransaction e request L = Inr (L', tid, fb, tb)" and "noPending L"
  shows "noPending L'"
  using transferTransaction_logs [OF assms(1)] assms(2)
  by (auto simp: noPending_def)

lemma executeNewTransfer_noPending:
  assumes "noPending (store w)"
  shows "noPending (store (snd (executeNewTransfer e request w)))"
proof (cases "transferTransaction e request (store w)")
  case (Inl err)
  with assms show ?thesis
    by (simp add: executeNewTransfer_def catchBlock_def Let_def markTransactionFailed_noPending)
next
  case (Inr r)
  obtain L' tid fb tb where "r = (L', tid, fb, tb)" by (cases r)
  with Inr transferTransaction_noPending [of e request "store w" L' tid fb tb] assms
  show ?thesis by (simp add: executeNewTransfer_def Let_def)
qed

text \<open>
  Steps 4 to 6 of an instance that looked the key up before another instance committed.
\<close>

lemma newTransfer_noPending:
  assumes "noPending (store w)"
  shows "noPending (store (snd (finallyBlock e key (executeNewTransfer e request w))))"
  using executeNewTransfer_noPending [OF assms] by (simp add: finallyBlock_def)

lemma lockedSection_noPending:
  assumes "noPending (store w)"
  shows "noPending (store (snd (lockedSection e request w)))"
proof (cases "findOneCall e ExistingFind (idempotencyKey request) (store w)")
  case (Inl err)
  with assms show ?thesis
    by (simp add: lockedSection_def finallyBlock_def catchBlock_def Let_def
                  markTransactionFailed_noPending)
next
  case (Inr found)
  with assms executeNewTransfer_noPending [OF assms, of e request] show ?thesis
    by (cases found) (simp_all add: lockedSection_def finallyBlock_def Let_def)
qed

lemma executeTransfer_noPending:
  assumes "noPending (store w)"
  shows "noPending (store (snd (executeTransfer e request w)))"
proof -
  have "noPending (store (snd (lockedSection e request (w\<lparr>cache := c\<rparr>))))" for c
    using assms by (intro lockedSection_noPending) simp
  with assms show ?thesis
    by (auto simp: executeTransfer_def Let_def
             split: sum.splits option.splits prod.splits bool.splits)
qed

lemma runCalls_noPending:
  assumes "noPending (store w)"
  shows "noPending (store (runCalls calls w))"
  using assms by (induction calls arbitrary: w) (simp_all add: executeTransfer_noPending)

text \<open>Every log that a lookup finds in such a ledger is in a terminal state.\<close>

lemma noPending_findOne:
  assumes "noPending L" and "findOne key L = Some l"
  shows "status l = SUCCESS \<or> status l = FAILED"
proof -
  from assms(2) have "l \<in> set (logs L)"
    by (auto simp: findOne_def dest!: find_Some_iff [THEN iffD1])
  with assms(1) have "status l \<noteq> PENDING" by (auto simp: noPending_def list_all_iff)
  then show ?thesis by (cases "status l") simp_all
qed

section \<open>Atomicity of a transfer\<close>

text \<open>
  Claim C1. A call of \<^verbatim>\<open>executeTransfer\<close> that ends in an error leaves the balance and the
  version of every wallet as they were, and the wallets differ after a call only when it
  returns the response of a transfer it has just completed. The same holds for steps 4 to
  6 alone, started from any world, that is from the entry into the ledger transaction on.
\<close>

theorem transfer_atomicity:
  "(executeTransfer e request w = (outcome, w') \<longrightarrow>
      (isl outcome \<longrightarrow> wallets (store w') = wallets (store w)) \<and>
      (wallets (store w') \<noteq> wallets (store w) \<longrightarrow>
         (\<exists>resp. outcome = Inr resp \<and> success resp \<and>
                 message resp = ''Transfer completed successfully''))) \<and>
   (finallyBlock e (idempotencyKey request) (executeNewTransfer e request w) = (outcome, w') \<longrightarrow>
      (isl outcome \<longrightarrow> wallets (store w') = wallets (store w)) \<and>
      (wallets (store w') \<noteq> wallets (store w) \<longrightarrow>
         (\<exists>resp. outcome = Inr resp \<and> success resp \<and>
                 message resp = ''Transfer completed successfully'')))"
proof -
  have a: "(isl outcome \<longrightarrow> wallets (store w') = wallets (store w)) \<and>
      (wallets (store w') \<noteq> wallets (store w) \<longrightarrow>
         (\<exists>resp. outcome = Inr resp \<and> success resp \<and>
                 message resp = ''Transfer completed successfully''))"
    if "wallets (store w') = wallets (store w) \<or> freshSuccess outcome"
    using that by (cases outcome) (auto simp: freshSuccess_def)
  have b: "wallets (store w') = wallets (store w) \<or> freshSuccess outcome"
    if "finallyBlock e (idempotencyKey request) (executeNewTransfer e request w) = (outcome, w')"
  proof -
    obtain o1 w1 where n: "executeNewTransfer e request w = (o1, w1)"
      by (cases "executeNewTransfer e request w")
    from executeNewTransfer_wallets [OF n] n that show ?thesis
      by (auto simp: finallyBlock_def)
  qed
  show ?thesis using a executeTransfer_wallets b by blast
qed

theorem transfer_atomicity_witness:
  "isl (fst (executeTransfer calm (pay ''2000.0000'' ''i1'') (seeded ''500.0000'' ''500.0000''))) \<and>
   wallets (store (snd (executeTransfer calm (pay ''2000.0000'' ''i1'')
                          (seeded ''500.0000'' ''500.0000'')))) =
     wallets (store (seeded ''500.0000'' ''500.0000''))"
proof -
  have failed: "isl (fst (executeTransfer calm (pay ''2000.0000'' ''i1'')
                            (seeded ''500.0000'' ''500.0000'')))"
    by code_simp
  have run: "executeTransfer calm (pay ''2000.0000'' ''i1'') (seeded ''500.0000'' ''500.0000'') =
      (fst (executeTransfer calm (pay ''2000.0000'' ''i1'') (seeded ''500.0000'' ''500.0000'')),
       snd (executeTransfer calm (pay ''2000.0000'' ''i1'') (seeded ''500.0000'' ''500.0000'')))"
    by simp
  from transfer_atomicity [of calm "pay ''2000.0000'' ''i1''" "seeded ''500.0000'' ''500.0000''"
      "fst (executeTransfer calm (pay ''2000.0000'' ''i1'') (seeded ''500.0000'' ''500.0000''))"
      "snd (executeTransfer calm (pay ''2000.0000'' ''i1'') (seeded ''500.0000'' ''500.0000''))"]
    run failed
  show ?thesis by blast
qed

section \<open>Terminal states of a log\<close>

text \<open>
  Claim C2. A log in the state SUCCESS or FAILED keeps that state, and the failure recorder
  is not run for the error DUPLICATE_REQUEST. The \<^verbatim>\<open>catch\<close> block runs
  \<^verbatim>\<open>markTransactionFailed\<close> for every error, and its update takes every row with the
  idempotency key. Two instances receive the same request while the cache is unreachable;
  the second one has looked the key up before the first one commits, and then runs its
  steps 4 to 6: its insert meets the committed row, it fails with DUPLICATE_REQUEST, and
  the SUCCESS log of the first instance becomes FAILED although the money has moved. The
  same happens without a second instance when the lookup of step 3 throws during a replay.
  Lemma \<open>existing_log_is_marked_failed\<close> above shows the overwrite for every ledger
  that holds a log with the key.
\<close>

theorem failure_recorder_overwrites_success:
  "ledgerThrows secondInstance ExistingFind = None \<and>
   findOne ''c1'' (store (seeded ''1000.0000'' ''500.0000'')) = None \<and>
   fst (executeTransfer redisDown (pay ''100.0000'' ''c1'') (seeded ''1000.0000'' ''500.0000'')) =
     Inr \<lparr>success = True, transactionId = ''550e8400-e29b-41d4-a716-446655440000'',
          message = ''Transfer completed successfully'',
          fromBalance = Some ''900.0000'', toBalance = Some ''600.0000''\<rparr> \<and>
   map_option status (findOne ''c1'' (store (snd (executeTransfer redisDown (pay ''100.0000'' ''c1'')
       (seeded ''1000.0000'' ''500.0000''))))) = Some SUCCESS \<and>
   fst (finallyBlock secondInstance ''c1'' (executeNewTransfer secondInstance (pay ''100.0000'' ''c1'')
       (snd (executeTransfer redisDown (pay ''100.0000'' ''c1'') (seeded ''1000.0000'' ''500.0000''))))) =
     Inl (TransferError ''Duplicate request detected'' 409 ''DUPLICATE_REQUEST'') \<and>
   map_option status (findOne ''c1'' (store (snd
     (finallyBlock secondInstance ''c1'' (executeNewTransfer secondInstance (pay ''100.0000'' ''c1'')
       (snd (executeTransfer redisDown (pay ''100.0000'' ''c1'') (seeded ''1000.0000'' ''500.0000'')))))))) =
     Some FAILED \<and>
   map_option logErrorMessage (findOne ''c1'' (store (snd
     (finallyBlock secondInstance ''c1'' (executeNewTransfer secondInstance (pay ''100.0000'' ''c1'')
       (snd (executeTransfer redisDown (pay ''100.0000'' ''c1'') (seeded ''1000.0000'' ''500.0000'')))))))) =
     Some (Some ''Duplicate request detected'') \<and>
   map_option balance (wallets (store (snd
     (finallyBlock secondInstance ''c1'' (executeNewTransfer secondInstance (pay ''100.0000'' ''c1'')
       (snd (executeTransfer redisDown (pay ''100.0000'' ''c1'') (seeded ''1000.0000'' ''500.0000''))))))) aliceId) =
     Some ''900.0000'' \<and>
   fst (executeTransfer lookupTimeout (pay ''100.0000'' ''c1'')
       (snd (executeTransfer redisDown (pay ''100.0000'' ''c1'') (seeded ''1000.0000'' ''500.0000'')))) =
     Inl (TransferError ''Connection terminated'' 500 ''TRANSFER_FAILED'') \<and>
   map_option status (findOne ''c1'' (store (snd (executeTransfer lookupTimeout (pay ''100.0000'' ''c1'')
       (snd (executeTransfer redisDown (pay ''100.0000'' ''c1'') (seeded ''1000.0000'' ''500.0000''))))))) =
     Some FAILED"
  by code_simp

text \<open>
  After the overwrite a replay of the key, with every collaborator available, is answered
  from the FAILED log.
\<close>

lemma overwritten_log_is_replayed_as_failed:
  "fst (executeTransfer redisDown (pay ''100.0000'' ''c1'') (seeded ''1000.0000'' ''500.0000'')) =
     Inr \<lparr>success = True, transactionId = ''550e8400-e29b-41d4-a716-446655440000'',
          message = ''Transfer completed successfully'',
          fromBalance = Some ''900.0000'', toBalance = Some ''600.0000''\<rparr> \<and>
   fst (executeTransfer calm (pay ''100.0000'' ''c1'')
         (runCalls [(redisDown, pay ''100.0000'' ''c1''), (lookupTimeout, pay ''100.0000'' ''c1'')]
            (seeded ''1000.0000'' ''500.0000''))) =
     Inr \<lparr>success = False, transactionId = ''550e8400-e29b-41d4-a716-446655440000'',
          message = ''Transfer previously failed'', fromBalance = None, toBalance = None\<rparr> \<and>
   map_option balance (wallets (store
         (runCalls [(redisDown, pay ''100.0000'' ''c1''), (lookupTimeout, pay ''100.0000'' ''c1'')]
            (seeded ''1000.0000'' ''500.0000''))) aliceId) = Some ''900.0000''"
  by code_simp

section \<open>The log of a rejected transfer\<close>

text \<open>
  Claim C3. After a transfer rejected with INSUFFICIENT_BALANCE a log with status FAILED
  exists for its idempotency key. In the code the PENDING row is inserted inside the
  transaction that is rolled back, and \<^verbatim>\<open>markTransactionFailed\<close> only updates existing
  rows: for wallet A holding 500.0000 and a request of 2000.0000 under the key \<^verbatim>\<open>i1\<close> the
  call fails with INSUFFICIENT_BALANCE and the log table holds no row at all. Lemma
  \<open>rejected_transfer_has_no_log\<close> above shows the same for every call that is rejected
  with this code.
\<close>

theorem insufficient_balance_leaves_no_log:
  "fst (executeTransfer calm (pay ''2000.0000'' ''i1'') (seeded ''500.0000'' ''500.0000'')) =
     Inl (TransferError ''Insufficient balance. Available: 500.0000, Required: 2000.0000''
            400 ''INSUFFICIENT_BALANCE'') \<and>
   findOne ''i1'' (store (snd (executeTransfer calm (pay ''2000.0000'' ''i1'')
                                 (seeded ''500.0000'' ''500.0000'')))) = None \<and>
   logs (store (snd (executeTransfer calm (pay ''2000.0000'' ''i1'')
                       (seeded ''500.0000'' ''500.0000'')))) = []"
  by code_simp

section \<open>Replay of a completed transfer\<close>

text \<open>
  Claim C4. Once a call has completed a transfer under a key, every later call with that
  key returns a response with the same transaction id, success flag and balances, whether
  it is served from the cache or from the log; only the message differs. In the code the
  lookup of step 3 lies inside the \<^verbatim>\<open>try\<close>, and the \<^verbatim>\<open>catch\<close> block marks the log of the
  key FAILED for every error. Alice pays Bob 100.0000 under the key \<^verbatim>\<open>k4\<close> while the cache
  is unreachable, so the result lives in the log only. The request is sent again and its
  lookup of the log fails with a connection error: the call fails and the SUCCESS log
  becomes FAILED. The next replay, with every collaborator available, is answered
  \<^verbatim>\<open>success = false\<close>, \<^verbatim>\<open>Transfer previously failed\<close>, without balances, although the money
  has moved. The same answer follows the duplicate insert of a second instance that had
  looked the key up before the first one committed.
\<close>

theorem replay_after_failed_lookup_reports_failure:
  "fst (executeTransfer redisDown (pay ''100.0000'' ''k4'') (seeded ''1000.0000'' ''500.0000'')) =
     Inr \<lparr>success = True, transactionId = ''550e8400-e29b-41d4-a716-446655440000'',
          message = ''Transfer completed successfully'',
          fromBalance = Some ''900.0000'', toBalance = Some ''600.0000''\<rparr> \<and>
   fst (executeTransfer calm (pay ''100.0000'' ''k4'')
         (runCalls [(redisDown, pay ''100.0000'' ''k4''), (lookupTimeout, pay ''100.0000'' ''k4'')]
            (seeded ''1000.0000'' ''500.0000''))) =
     Inr \<lparr>success = False, transactionId = ''550e8400-e29b-41d4-a716-446655440000'',
          message = ''Transfer previously failed'', fromBalance = None, toBalance = None\<rparr> \<and>
   fst (executeTransfer calm (pay ''100.0000'' ''k4'')
         (snd (finallyBlock secondInstance ''k4''
                (executeNewTransfer secondInstance (pay ''100.0000'' ''k4'')
                   (runCalls [(redisDown, pay ''100.0000'' ''k4'')]
                      (seeded ''1000.0000'' ''500.0000'')))))) =
     Inr \<lparr>success = False, transactionId = ''550e8400-e29b-41d4-a716-446655440000'',
          message = ''Transfer previously failed'', fromBalance = None, toBalance = None\<rparr>"
  by code_simp

text \<open>
  The defect needs a failure between two calls with the key: while the lookups of calls
  with that key do not throw, every replay of a completed transfer returns the transaction
  id, success flag and balances of the original response, whatever other calls lie in
  between, also when the cache client throws or the lock is held.
\<close>

lemma replay_equivalence_when_lookups_work:
  assumes "executeTransfer e0 request0 w0 = (Inr orig, w1)"
    and "message orig = ''Transfer completed successfully''"
    and "results (cache w0) (idempotencyKey request0) = None"
    and "list_all (\<lambda>call. idempotencyKey (snd call) \<noteq> idempotencyKey request0 \<or>
                          lookupsWork (fst call)) calls"
    and "lookupsWork e"
    and "idempotencyKey request = idempotencyKey request0"
    and "validateTransferRequest request = Inr ()"
  shows "\<exists>resp w'. executeTransfer e request (runCalls calls w1) = (Inr resp, w') \<and>
           transactionId resp = transactionId orig \<and> success resp \<and>
           fromBalance resp = fromBalance orig \<and> toBalance resp = toBalance orig"
proof -
  have "replayState (idempotencyKey request0) orig w1"
    using assms(1-3) by (rule executeTransfer_first)
  then have st: "replayState (idempotencyKey request) orig (runCalls calls w1)"
    using assms(4,6) by (simp add: runCalls_keeps_replayState)
  obtain outcome w' where x: "executeTransfer e request (runCalls calls w1) = (outcome, w')"
    by (cases "executeTransfer e request (runCalls calls w1)")
  from executeTransfer_replay [OF x st assms(5)] assms(7) x show ?thesis
    by (auto simp: sameResult_def)
qed

text \<open>Such a replay, after a call under another key, with the cache unreachable.\<close>

lemma replay_equivalence_example:
  "fst (executeTransfer calm (pay ''100.0000'' ''t1'') (seeded ''1000.0000'' ''500.0000'')) =
     Inr \<lparr>success = True, transactionId = ''550e8400-e29b-41d4-a716-446655440000'',
          message = ''Transfer completed successfully'',
          fromBalance = Some ''900.0000'', toBalance = Some ''600.0000''\<rparr> \<and>
   (\<exists>resp w'.
      executeTransfer redisDown (pay ''100.0000'' ''t1'')
        (runCalls [(secondInstance, pay ''50.0000'' ''t2'')]
           (snd (executeTransfer calm (pay ''100.0000'' ''t1'') (seeded ''1000.0000'' ''500.0000''))))
        = (Inr resp, w') \<and>
      transactionId resp = ''550e8400-e29b-41d4-a716-446655440000'' \<and> success resp \<and>
      fromBalance resp = Some ''900.0000'' \<and> toBalance resp = Some ''600.0000'')"
proof -
  let ?orig = "\<lparr>success = True, transactionId = ''550e8400-e29b-41d4-a716-446655440000'',
          message = ''Transfer completed successfully'',
          fromBalance = Some ''900.0000'', toBalance = Some ''600.0000''\<rparr>"
  let ?w1 = "snd (executeTransfer calm (pay ''100.0000'' ''t1'') (seeded ''1000.0000'' ''500.0000''))"
  have first: "fst (executeTransfer calm (pay ''100.0000'' ''t1'') (seeded ''1000.0000'' ''500.0000''))
      = Inr ?orig"
    by code_simp
  then have run: "executeTransfer calm (pay ''100.0000'' ''t1'') (seeded ''1000.0000'' ''500.0000'')
      = (Inr ?orig, ?w1)"
    by (simp add: prod_eq_iff)
  have msg: "message ?orig = ''Transfer completed successfully''" by simp
  have fresh: "results (cache (seeded ''1000.0000'' ''500.0000''))
                 (idempotencyKey (pay ''100.0000'' ''t1'')) = None"
    by (simp add: seeded_def)
  have between: "list_all (\<lambda>call. idempotencyKey (snd call) \<noteq> idempotencyKey (pay ''100.0000'' ''t1'')
                      \<or> lookupsWork (fst call)) [(secondInstance, pay ''50.0000'' ''t2'')]"
    by (simp add: pay_def)
  have works: "lookupsWork redisDown"
    by (simp add: lookupsWork_def redisDown_def calm_def)
  have valid: "validateTransferRequest (pay ''100.0000'' ''t1'') = Inr ()"
    by code_simp
  from replay_equivalence_when_lookups_work [OF run msg fresh between works refl valid] first
  show ?thesis by simp
qed

section \<open>Arithmetic on the balances\<close>

text \<open>
  Claim C5. The new balances of a successful transfer are the exact decimal results at 4
  fractional digits over the whole range of the balance column. The code computes them
  with binary64 Numbers: a source balance of 900000000000000.0001 is read as
  900000000000000, and a transfer of 1.0000 leaves 899999999999999.0000 instead of the
  exact 899999999999999.0001.
\<close>

theorem float_subtraction_loses_precision:
  "fst (executeTransfer calm (pay ''1.0000'' ''p1'') (seeded ''900000000000000.0001'' ''0.0000'')) =
     Inr \<lparr>success = True, transactionId = ''550e8400-e29b-41d4-a716-446655440000'',
          message = ''Transfer completed successfully'',
          fromBalance = Some ''899999999999999.0000'', toBalance = Some ''1.0000''\<rparr> \<and>
   decimalValue ''900000000000000.0001'' - decimalValue ''1.0000'' =
     decimalValue ''899999999999999.0001'' \<and>
   decimalValue ''899999999999999.0001'' \<noteq> decimalValue ''899999999999999.0000''"
  by code_simp

text \<open>
  Claim C6. A successful transfer takes from the source exactly what it adds to the
  destination, so the sum of the balances stays the same. With the amount 0.03125 both
  results lie halfway between two texts of 4 fractional digits and both are rounded up:
  the source loses 0.0312, the destination gains 0.0313 and the sum grows by 0.0001. With
  the balance 900000000000000.0001 and the amount 1.0000 the sum shrinks by 0.0001.
\<close>

theorem rounding_creates_value:
  "totalBalance [aliceId, bobId] (store (seeded ''1000.0000'' ''500.0000'')) = 1500 \<and>
   fst (executeTransfer calm (pay ''0.03125'' ''r1'') (seeded ''1000.0000'' ''500.0000'')) =
     Inr \<lparr>success = True, transactionId = ''550e8400-e29b-41d4-a716-446655440000'',
          message = ''Transfer completed successfully'',
          fromBalance = Some ''999.9688'', toBalance = Some ''500.0313''\<rparr> \<and>
   totalBalance [aliceId, bobId]
     (store (snd (executeTransfer calm (pay ''0.03125'' ''r1'') (seeded ''1000.0000'' ''500.0000''))))
     = 15000001 / 10000 \<and>
   totalBalance [aliceId, bobId] (store (seeded ''900000000000000.0001'' ''0.0000'')) =
     9000000000000000001 / 10000 \<and>
   totalBalance [aliceId, bobId]
     (store (snd (executeTransfer calm (pay ''1.0000'' ''r2'')
                    (seeded ''900000000000000.0001'' ''0.0000''))))
     = 900000000000000"
  by code_simp

section \<open>The fallback after the lock retries\<close>

text \<open>
  The retry loop ends without the lock exactly when the lock key is present and none of
  the 50 attempts throws.
\<close>

lemma acquireLockLoop_exhausted:
  "fst (acquireLockLoop e key n i c) = False \<longleftrightarrow>
     (n = 0 \<or> (locks c key \<noteq> None \<and> (\<forall>j<n. \<not> redisThrows e (SET_NX (i + j)))))"
proof (induction n arbitrary: i c)
  case 0
  then show ?case by simp
next
  case (Suc n)
  show ?case
  proof (cases "redisThrows e (SET_NX i)")
    case True
    then have "fst (acquireLockLoop e key (Suc n) i c) = True"
      by (simp add: acquireLock_def)
    moreover from True have "\<not> (\<forall>j<Suc n. \<not> redisThrows e (SET_NX (i + j)))"
      by (intro notI) (drule spec [of _ 0], simp)
    ultimately show ?thesis by simp
  next
    case False
    show ?thesis
    proof (cases "locks c key")
      case None
      with False show ?thesis by (simp add: acquireLock_def)
    next
      case (Some holder)
      with False have step: "acquireLockLoop e key (Suc n) i c = acquireLockLoop e key n (Suc i) c"
        by (simp add: acquireLock_def)
      have "(\<forall>j<Suc n. \<not> redisThrows e (SET_NX (i + j))) \<longleftrightarrow>
            (\<forall>j<n. \<not> redisThrows e (SET_NX (Suc i + j)))"
        using False by (auto simp: less_Suc_eq_0_disj)
      with Suc.IH [of "Suc i" c] Some step show ?thesis by auto
    qed
  qed
qed

lemma acquireLockWithRetry_exhausted:
  "\<not> fst (acquireLockWithRetry e key c) \<longleftrightarrow>
     locks c key \<noteq> None \<and> (\<forall>attempt<50. \<not> redisThrows e (SET_NX attempt))"
  using acquireLockLoop_exhausted [of e key LOCK_MAX_RETRIES 0 c]
  by (simp add: acquireLockWithRetry_def LOCK_MAX_RETRIES_def)

text \<open>
  Claim C7. A valid request that misses the cache and uses up the retries of the lock gets
  a prior result only from a log in a terminal state, and fails with CONCURRENT_PROCESSING
  (409) when the lookup finds no log. No committed log is PENDING: the insert of the
  PENDING row and its update to SUCCESS lie in one transaction, and the failure recorder
  writes FAILED only (lemmas \<open>executeTransfer_noPending\<close>, \<open>newTransfer_noPending\<close> and
  \<open>runCalls_noPending\<close> above). On such a ledger the log that the lookup of the fallback
  finds is SUCCESS or FAILED, and the response built from it is returned and written to
  the cache; without a log the call fails with CONCURRENT_PROCESSING and the cache stays as
  it was; an exception of the lookup itself is rethrown.
\<close>

theorem fallback_returns_terminal_log:
  assumes "validateTransferRequest request = Inr ()"
    and "getCachedResult e (idempotencyKey request) (cache w) = None"
    and "\<not> fst (acquireLockWithRetry e (idempotencyKey request) (cache w))"
    and "noPending (store w)"
  shows "case findOneCall e FallbackFind (idempotencyKey request) (store w) of
           Inl err \<Rightarrow> executeTransfer e request w = (Inl err, w)
         | Inr None \<Rightarrow>
             executeTransfer e request w =
               (Inl (TransferError
                       ''Request is being processed by another instance. Please retry.''
                       409 ''CONCURRENT_PROCESSING''), w)
         | Inr (Some l) \<Rightarrow>
             (status l = SUCCESS \<or> status l = FAILED) \<and>
             executeTransfer e request w =
               (Inr (buildResponseFromLog l),
                w\<lparr>cache := cacheResult e (idempotencyKey request) (buildResponseFromLog l)
                             (cache w)\<rparr>)"
proof -
  obtain got c where a: "acquireLockWithRetry e (idempotencyKey request) (cache w) = (got, c)"
    by (cases "acquireLockWithRetry e (idempotencyKey request) (cache w)")
  with assms(3) have got: "got = False" by simp
  with a have c: "c = cache w"
    by (auto simp: acquireLockWithRetry_def dest: acquireLockLoop_False)
  have terminal: "status l = SUCCESS \<or> status l = FAILED"
    if "findOneCall e FallbackFind (idempotencyKey request) (store w) = Inr (Some l)" for l
  proof -
    from that have "findOne (idempotencyKey request) (store w) = Some l"
      by (auto simp: findOneCall_def split: option.splits)
    with assms(4) show ?thesis by (rule noPending_findOne)
  qed
  from a got c assms(1,2) terminal show ?thesis
    by (auto simp: executeTransfer_def Let_def split: sum.splits option.splits)
qed

theorem fallback_returns_terminal_log_witness:
  "validateTransferRequest (pay ''100.0000'' ''c1'') = Inr () \<and>
   getCachedResult calm ''c1''
     (cache (runCalls [(cacheWritesFail, pay ''100.0000'' ''c1'')]
               (seeded ''1000.0000'' ''500.0000''))) = None \<and>
   \<not> fst (acquireLockWithRetry calm ''c1''
     (cache (runCalls [(cacheWritesFail, pay ''100.0000'' ''c1'')]
               (seeded ''1000.0000'' ''500.0000'')))) \<and>
   noPending (store (runCalls [(cacheWritesFail, pay ''100.0000'' ''c1'')]
                       (seeded ''1000.0000'' ''500.0000''))) \<and>
   map_option status (findOne ''c1''
     (store (runCalls [(cacheWritesFail, pay ''100.0000'' ''c1'')]
               (seeded ''1000.0000'' ''500.0000'')))) = Some SUCCESS \<and>
   fst (executeTransfer calm (pay ''100.0000'' ''c1'')
          (runCalls [(cacheWritesFail, pay ''100.0000'' ''c1'')]
             (seeded ''1000.0000'' ''500.0000''))) =
     Inr \<lparr>success = True, transactionId = ''550e8400-e29b-41d4-a716-446655440000'',
          message = ''Transfer already processed (idempotent request)'',
          fromBalance = Some ''900.0000'', toBalance = Some ''600.0000''\<rparr> \<and>
   findOne ''c9'' (store (lockHeld ''c9'' (seeded ''1000.0000'' ''500.0000''))) = None \<and>
   fst (executeTransfer calm (pay ''100.0000'' ''c9'')
          (lockHeld ''c9'' (seeded ''1000.0000'' ''500.0000''))) =
     Inl (TransferError ''Request is being processed by another instance. Please retry.''
            409 ''CONCURRENT_PROCESSING'')"
proof -
  let ?w = "runCalls [(cacheWritesFail, pay ''100.0000'' ''c1'')] (seeded ''1000.0000'' ''500.0000'')"
  let ?R = "\<lparr>success = True, transactionId = ''550e8400-e29b-41d4-a716-446655440000'',
          message = ''Transfer already processed (idempotent request)'',
          fromBalance = Some ''900.0000'', toBalance = Some ''600.0000''\<rparr>"
  have valid: "validateTransferRequest (pay ''100.0000'' ''c1'') = Inr ()"
    by code_simp
  have kept: "results (cache ?w) ''c1'' = None \<and> locks (cache ?w) ''c1'' \<noteq> None"
    by code_simp
  then have miss: "getCachedResult calm (idempotencyKey (pay ''100.0000'' ''c1'')) (cache ?w) = None"
    by (simp add: getCachedResult_def pay_def calm_def)
  from kept
  have held: "\<not> fst (acquireLockWithRetry calm (idempotencyKey (pay ''100.0000'' ''c1'')) (cache ?w))"
    by (simp only: acquireLockWithRetry_exhausted) (simp add: pay_def calm_def)
  have "noPending (store (seeded ''1000.0000'' ''500.0000''))"
    by (simp add: noPending_def seeded_def)
  then have np: "noPending (store ?w)"
    by (rule runCalls_noPending)
  have built: "map_option buildResponseFromLog (findOne ''c1'' (store ?w)) = Some ?R"
    by code_simp
  then obtain l where l: "findOne ''c1'' (store ?w) = Some l" "buildResponseFromLog l = ?R"
    by auto
  from l(2) have "status l = SUCCESS"
    by (auto simp: buildResponseFromLog_def Let_def split: if_splits option.splits)
  with l(1) have st: "map_option status (findOne ''c1'' (store ?w)) = Some SUCCESS"
    by simp
  from l(1)
  have found: "findOneCall calm FallbackFind (idempotencyKey (pay ''100.0000'' ''c1'')) (store ?w)
      = Inr (Some l)"
    by (simp add: findOneCall_def calm_def pay_def)
  from fallback_returns_terminal_log [OF valid miss held np] found l(2)
  have first: "fst (executeTransfer calm (pay ''100.0000'' ''c1'') ?w) = Inr ?R"
    by simp
  let ?v = "lockHeld ''c9'' (seeded ''1000.0000'' ''500.0000'')"
  have valid9: "validateTransferRequest (pay ''100.0000'' ''c9'') = Inr ()"
    by code_simp
  have miss9: "getCachedResult calm (idempotencyKey (pay ''100.0000'' ''c9'')) (cache ?v) = None"
    by (simp add: getCachedResult_def lockHeld_def seeded_def pay_def calm_def)
  have held9: "\<not> fst (acquireLockWithRetry calm (idempotencyKey (pay ''100.0000'' ''c9'')) (cache ?v))"
    by (simp only: acquireLockWithRetry_exhausted) (simp add: pay_def calm_def lockHeld_def)
  have np9: "noPending (store ?v)"
    by (simp add: noPending_def lockHeld_def seeded_def)
  have none9: "findOne ''c9'' (store ?v) = None"
    by (simp add: findOne_def lockHeld_def seeded_def)
  then have found9: "findOneCall calm FallbackFind (idempotencyKey (pay ''100.0000'' ''c9'')) (store ?v)
      = Inr None"
    by (simp add: findOneCall_def calm_def pay_def)
  from fallback_returns_terminal_log [OF valid9 miss9 held9 np9] found9
  have second: "fst (executeTransfer calm (pay ''100.0000'' ''c9'') ?v) =
     Inl (TransferError ''Request is being processed by another instance. Please retry.''
            409 ''CONCURRENT_PROCESSING'')"
    by simp
  from valid miss held np st first none9 second show ?thesis
    by (simp add: pay_def)
qed

section \<open>The order of the row locks\<close>

text \<open>
  Claim C8. For two distinct wallet ids the lock order of \<^verbatim>\<open>executeTransfer\<close> is the
  lexicographically smaller id first and the larger one second, so a transfer from \<open>a\<close> to
  \<open>b\<close> and the opposite transfer lock in the same order; matching the ids of the request
  against the first lock id then gives each role the wallet read under its own id.
\<close>

theorem lock_order_direction_independent:
  assumes "a \<noteq> b"
  shows "lockOrder a b = (min a b, max a b) \<and> lockOrder b a = lockOrder a b \<and>
         (if a = fst (lockOrder a b) then wallets L (fst (lockOrder a b))
          else wallets L (snd (lockOrder a b))) = wallets L a \<and>
         (if b = fst (lockOrder a b) then wallets L (fst (lockOrder a b))
          else wallets L (snd (lockOrder a b))) = wallets L b"
  using assms by (auto simp: lockOrder_def min_def max_def)

theorem lock_order_direction_independent_witness:
  "aliceId \<noteq> bobId \<and> lockOrder aliceId bobId = (aliceId, bobId) \<and>
   lockOrder bobId aliceId = (aliceId, bobId)"
proof -
  have ne: "aliceId \<noteq> bobId" by (simp add: aliceId_def bobId_def)
  have lt: "aliceId < bobId" unfolding aliceId_def bobId_def by code_simp
  then have mm: "min aliceId bobId = aliceId" "max aliceId bobId = bobId"
    by (auto simp: min_def max_def)
  have "lockOrder aliceId bobId = (min aliceId bobId, max aliceId bobId)"
    and "lockOrder bobId aliceId = lockOrder aliceId bobId"
    using lock_order_direction_independent [OF ne, of undefined] by blast+
  with mm ne show ?thesis by simp
qed

section \<open>Validation and the length of the idempotency key\<close>

text \<open>
  Claim C9, as the code has it. \<^verbatim>\<open>validateTransferRequest\<close> does not look at the length of
  the idempotency key: a request with a key of more than 255 octets has the outcome of the
  same request with a key of one octet. When validation fails, \<^verbatim>\<open>executeTransfer\<close> fails
  with that error and the cache, the locks and the ledger are as before.
\<close>

theorem validation_ignores_key_length:
  assumes "255 < length (idempotencyKey request)"
  shows "validateTransferRequest request =
           validateTransferRequest (request\<lparr>idempotencyKey := ''k''\<rparr>) \<and>
         (\<forall>err. validateTransferRequest request = Inl err \<longrightarrow>
                executeTransfer e request w = (Inl err, w))"
proof -
  from assms have "idempotencyKey request \<noteq> []" by auto
  then have same: "validateTransferRequest request =
           validateTransferRequest (request\<lparr>idempotencyKey := ''k''\<rparr>)"
    by (auto simp: validateTransferRequest_def Let_def)
  have early: "executeTransfer e request w = (Inl err, w)"
    if "validateTransferRequest request = Inl err" for err
    using that by (simp add: executeTransfer_def)
  from same early show ?thesis by blast
qed

theorem validation_ignores_key_length_witness:
  "255 < length (idempotencyKey longKeyRequest) \<and>
   validateTransferRequest longKeyRequest =
     validateTransferRequest (longKeyRequest\<lparr>idempotencyKey := ''k''\<rparr>) \<and>
   validateTransferRequest (longKeyRequest\<lparr>idempotencyKey := ''k''\<rparr>) = Inr ()"
proof -
  have long: "255 < length (idempotencyKey longKeyRequest)"
    by (simp add: longKeyRequest_def pay_def)
  have short: "validateTransferRequest (longKeyRequest\<lparr>idempotencyKey := ''k''\<rparr>) = Inr ()"
    by code_simp
  from validation_ignores_key_length [OF long, of undefined undefined] long short
  show ?thesis by simp
qed

text \<open>A valid request with a key of 256 octets passes validation.\<close>

theorem long_key_passes_validation:
  "length (idempotencyKey longKeyRequest) = 256 \<and> validateTransferRequest longKeyRequest = Inr ()"
  by code_simp

section \<open>Release of the lock\<close>

text \<open>
  Claim C10. \<^verbatim>\<open>releaseLock\<close> makes no ownership check: when the delete reaches the store,
  the lock key of the idempotency key is absent afterwards, whatever value it held and
  whoever set it; no other lock and no cached result changes.
\<close>

theorem release_lock_no_ownership_check:
  assumes "\<not> redisThrows e DEL"
  shows "locks (releaseLock e key c) key = None \<and>
         locks (releaseLock e key (c\<lparr>locks := (locks c)(key \<mapsto> holder)\<rparr>)) key = None \<and>
         (\<forall>k. k \<noteq> key \<longrightarrow> locks (releaseLock e key c) k = locks c k) \<and>
         results (releaseLock e key c) = results c"
  using assms by (simp add: releaseLock_def)

theorem release_lock_no_ownership_check_witness:
  "\<not> redisThrows calm DEL \<and>
   locks (cache pendingWorld) ''c1'' = Some ''1770201044000'' \<and>
   locks (releaseLock calm ''c1'' (cache pendingWorld)) ''c1'' = None"
proof -
  have up: "\<not> redisThrows calm DEL" by (simp add: calm_def)
  from release_lock_no_ownership_check [OF up, of "''c1''" "cache pendingWorld" undefined] up
  show ?thesis by (simp add: pendingWorld_def)
qed

text \<open>
  A request whose lock attempt failed open releases the lock that another request holds.
\<close>

lemma release_removes_foreign_lease:
  "locks (cache pendingWorld) ''c1'' = Some ''1770201044000'' \<and>
   locks (cache (snd (executeTransfer cacheRecovers (pay ''100.0000'' ''c1'') pendingWorld))) ''c1''
     = None"
  by code_simp

section \<open>The scenarios of the test suite\<close>

text \<open>A simple transfer, its replay, and the precision test.\<close>

lemma scenario_simple_transfer:
  "fst (executeTransfer calm (pay ''100.0000'' ''t1'') (seeded ''1000.0000'' ''500.0000'')) =
     Inr \<lparr>success = True, transactionId = ''550e8400-e29b-41d4-a716-446655440000'',
          message = ''Transfer completed successfully'',
          fromBalance = Some ''900.0000'', toBalance = Some ''600.0000''\<rparr> \<and>
   map_option balance (wallets (store (snd (executeTransfer calm (pay ''100.0000'' ''t1'')
       (seeded ''1000.0000'' ''500.0000'')))) aliceId) = Some ''900.0000'' \<and>
   map_option balance (wallets (store (snd (executeTransfer calm (pay ''100.0000'' ''t1'')
       (seeded ''1000.0000'' ''500.0000'')))) bobId) = Some ''600.0000'' \<and>
   map_option status (findOne ''t1'' (store (snd (executeTransfer calm (pay ''100.0000'' ''t1'')
       (seeded ''1000.0000'' ''500.0000''))))) = Some SUCCESS"
  by code_simp

lemma scenario_replay:
  "fst (executeTransfer calm (pay ''100.0000'' ''t1'')
         (snd (executeTransfer calm (pay ''100.0000'' ''t1'') (seeded ''1000.0000'' ''500.0000'')))) =
     Inr \<lparr>success = True, transactionId = ''550e8400-e29b-41d4-a716-446655440000'',
          message = ''Transfer already processed (idempotent request) (from cache)'',
          fromBalance = Some ''900.0000'', toBalance = Some ''600.0000''\<rparr> \<and>
   map_option balance (wallets (store (runCalls
       [(calm, pay ''100.0000'' ''t1''), (calm, pay ''100.0000'' ''t1'')]
       (seeded ''1000.0000'' ''500.0000''))) aliceId) = Some ''900.0000''"
  by code_simp

lemma scenario_precision:
  "fst (executeTransfer calm (pay ''123.4567'' ''p1'') (seeded ''1000.0000'' ''500.0000'')) =
     Inr \<lparr>success = True, transactionId = ''550e8400-e29b-41d4-a716-446655440000'',
          message = ''Transfer completed successfully'',
          fromBalance = Some ''876.5433'', toBalance = Some ''623.4567''\<rparr>"
  by code_simp

lemma scenario_rejected_requests:
  "fst (executeTransfer calm (pay ''-100.0000'' ''n1'') (seeded ''1000.0000'' ''500.0000'')) =
     Inl (TransferError ''Amount must be a positive number'' 400 ''INVALID_AMOUNT'') \<and>
   fst (executeTransfer calm (pay ''0.0000'' ''z1'') (seeded ''1000.0000'' ''500.0000'')) =
     Inl (TransferError ''Amount must be a positive number'' 400 ''INVALID_AMOUNT'') \<and>
   fst (executeTransfer calm ((pay ''100.0000'' ''s1'')\<lparr>toWalletId := aliceId\<rparr>)
         (seeded ''1000.0000'' ''500.0000'')) =
     Inl (TransferError ''Cannot transfer to the same wallet'' 400 ''SAME_WALLET_TRANSFER'')"
  by code_simp


section \<open>Requests that pass validation and meet the ledger\<close>

text \<open>
  A key of 256 octets, an amount with trailing letters, an amount of \<open>10^15\<close> and a wallet
  id without a row pass \<^verbatim>\<open>validateTransferRequest\<close> and are rejected by the insert of the
  log; the call fails with TRANSFER_FAILED (500) and leaves no log.
\<close>

lemma scenario_long_key:
  "fst (executeTransfer calm longKeyRequest (seeded ''1000.0000'' ''500.0000'')) =
     Inl (TransferError ''Validation error: Validation len on idempotencyKey failed''
            500 ''TRANSFER_FAILED'') \<and>
   logs (store (snd (executeTransfer calm longKeyRequest (seeded ''1000.0000'' ''500.0000'')))) = [] \<and>
   map_option balance (wallets (store (snd (executeTransfer calm longKeyRequest
       (seeded ''1000.0000'' ''500.0000'')))) aliceId) = Some ''1000.0000''"
  by code_simp

lemma scenario_amount_text:
  "fst (executeTransfer calm (pay ''100abc'' ''a1'') (seeded ''1000.0000'' ''500.0000'')) =
     Inl (TransferError ''Validation error: Validation isDecimal on amount failed''
            500 ''TRANSFER_FAILED'') \<and>
   fst (executeTransfer calm (pay ''1000000000000000'' ''a3'') (seeded ''1000.0000'' ''500.0000'')) =
     Inl (TransferError ''numeric field overflow'' 500 ''TRANSFER_FAILED'')"
  by code_simp

lemma scenario_absent_wallet:
  \<open>fst (executeTransfer calm ((pay ''100.0000'' ''w1'')\<lparr>toWalletId := daveId\<rparr>)
         (seeded ''1000.0000'' ''500.0000'')) =
     Inl (TransferError
            (''insert or update on table "transaction_logs" violates '' @
             ''foreign key constraint "transaction_logs_toWalletId_fkey"'')
            500 ''TRANSFER_FAILED'') \<and>
   logs (store (snd (executeTransfer calm ((pay ''100.0000'' ''w1'')\<lparr>toWalletId := daveId\<rparr>)
         (seeded ''1000.0000'' ''500.0000'')))) = []\<close>
  by code_simp

text \<open>
  A request that names one wallet twice, once in upper case, passes the comparison of the
  two id texts. Both reads return the same row, the second update overwrites the first,
  and the wallet gains the amount.
\<close>

lemma scenario_case_variant_self_transfer:
  "validateTransferRequest (selfTransfer ''100.0000'' ''s1'') = Inr () \<and>
   fst (executeTransfer calm (selfTransfer ''100.0000'' ''s1'') (carolWorld ''1000.0000'')) =
     Inr \<lparr>success = True, transactionId = ''550e8400-e29b-41d4-a716-446655440000'',
          message = ''Transfer completed successfully'',
          fromBalance = Some ''900.0000'', toBalance = Some ''1100.0000''\<rparr> \<and>
   wallets (store (snd (executeTransfer calm (selfTransfer ''100.0000'' ''s1'')
       (carolWorld ''1000.0000'')))) carolId =
     Some \<lparr>userId = ''carol'', balance = ''1100.0000'', version = 1\<rparr> \<and>
   totalBalance [carolId] (store (carolWorld ''1000.0000'')) = 1000 \<and>
   totalBalance [carolId] (store (snd (executeTransfer calm (selfTransfer ''100.0000'' ''s1'')
       (carolWorld ''1000.0000'')))) = 1100"
  by code_simp

end
